theory Spec2Isabelle
  imports Main
begin

section \<open>The event pipeline runner of the plugin server\<close>

text \<open>
  A shallow embedding of \<^verbatim>\<open>plugin-server/src/worker/ingestion/event-pipeline/runner.ts\<close>.
  The class \<^verbatim>\<open>EventPipelineRunner\<close> drives one event through a chain of steps: each step
  returns the name and arguments of the next one, or null. The seven step functions, the
  Kafka producer and the person store are collaborators whose code lives elsewhere; they
  are parameters of the model.
\<close>

subsection \<open>Values\<close>

text \<open>
  The values the runner handles are JavaScript values: events are plain objects, step
  arguments are arbitrary. \<open>JContainer a\<close> is a reference to the instance of
  \<^verbatim>\<open>LazyPersonContainer\<close> at address \<open>a\<close> of the store; every other constructor is
  immutable data.
\<close>

datatype jsval =
    JUndefined
  | JNull
  | JBool bool
  | JNum int
  | JStr string
  | JArr "jsval list"
  | JObj "(string \<times> jsval) list"
  | JContainer nat

text \<open>Property read \<^verbatim>\<open>v.k\<close> (\<^verbatim>\<open>v?.k\<close> on null and undefined): an absent key reads undefined.\<close>

fun get_prop :: "jsval \<Rightarrow> string \<Rightarrow> jsval" where
  "get_prop (JObj kvs) k = (case map_of kvs k of Some v \<Rightarrow> v | None \<Rightarrow> JUndefined)"
| "get_prop _ k = JUndefined"

text \<open>
  A thrown value. \<^verbatim>\<open>err instanceof DependencyUnavailableError\<close> distinguishes the first
  constructor; every other error is a \<open>JsError\<close>. Both carry their \<^verbatim>\<open>message\<close>.
\<close>

datatype js_error =
    DependencyUnavailableError string
  | JsError string

fun message :: "js_error \<Rightarrow> string" where
  "message (DependencyUnavailableError m) = m"
| "message (JsError m) = m"

fun instanceofDependencyUnavailableError :: "js_error \<Rightarrow> bool" where
  "instanceofDependencyUnavailableError (DependencyUnavailableError m) = True"
| "instanceofDependencyUnavailableError (JsError m) = False"

text \<open>
  Modelled from the spec: the class \<^verbatim>\<open>LazyPersonContainer\<close> (lazy-person-container.ts is
  not part of the sources at hand). The spec describes a lazily resolved handle to a
  per-(team, distinct-id) actor record, constructed with (tenant id, actor id), whose
  resolution is memoized after the first call; the runner reads its fields \<^verbatim>\<open>teamId\<close>,
  \<^verbatim>\<open>distinctId\<close> and \<^verbatim>\<open>loaded\<close> (whether resolution completed).
\<close>

record LazyPersonContainer =
  teamId :: jsval
  distinctId :: jsval
  loaded :: bool
  resolved :: "jsval option"

subsection \<open>Results and continuations\<close>

text \<open>\<^verbatim>\<open>EventPipelineResult\<close>: \<open>error = None\<close> is the object without an \<^verbatim>\<open>error\<close> field.\<close>

record EventPipelineResult =
  lastStep :: string
  args :: "jsval list"
  error :: "string option"

text \<open>\<^verbatim>\<open>StepResult\<close>: null, or the pair of the next step's name and its arguments.\<close>

type_synonym StepResult = "(string \<times> jsval list) option"

definition nextStep :: "string \<Rightarrow> jsval list \<Rightarrow> string \<times> jsval list" where
  "nextStep name as = (name, as)"

text \<open>
  What \<^verbatim>\<open>await this.runStep(...)\<close> gives, as the loop reads it. \<open>Fulfilled None\<close> is a falsy
  value (null for a step; the test \<^verbatim>\<open>if (stepResult)\<close> treats false and undefined alike),
  \<open>Fulfilled (Some (name, args))\<close> a continuation. The last two arise only from the members
  the registry object inherits from \<^verbatim>\<open>Object.prototype\<close>: an object that is not iterable,
  and the string \<^verbatim>\<open>[object Object]\<close>.
\<close>

datatype settled =
    Fulfilled StepResult
  | Rejected js_error
  | FulfilledObject
  | FulfilledObjectString

subsection \<open>State\<close>

text \<open>
  What the runner does to its collaborators is recorded, in call order, as a list of
  effects. \<open>StatsdIncrement\<close> and \<open>StatsdTiming\<close> stand for the calls
  \<^verbatim>\<open>this.hub.statsd?.increment(name, tags)\<close> and \<^verbatim>\<open>this.hub.statsd?.timing(name, timer, tags)\<close>
  (handed to the statsd client when the hub has one; the start time of a timing is
  wall-clock time and is left out). \<open>QueueMessage\<close> is one call of
  \<^verbatim>\<open>this.hub.db.kafkaProducer.queueMessage\<close>, whether it succeeds or not. \<open>StepCalled\<close>
  marks the call \<^verbatim>\<open>EVENT_PIPELINE_STEPS[name](this, ...args)\<close>.
\<close>

datatype tagval = TStr string | TString jsval  \<comment> \<open>a literal, or \<^verbatim>\<open>String(v)\<close>\<close>

record guard_context =
  guard_step :: string
  guard_event :: jsval  \<comment> \<open>the value whose \<^verbatim>\<open>JSON.stringify\<close> text is attached\<close>

record sentry_extra =
  currentStepName :: string
  serializedArgs :: "jsval list"
  extra_originalEvent :: jsval
  extra_err :: "js_error option"

text \<open>
  Modelled from the spec: the message built by \<^verbatim>\<open>generateEventDeadLetterQueueMessage\<close>
  (worker/ingestion/utils.ts is not part of the sources at hand). The spec's dead-letter
  envelope is derived from the originating raw event plus the causing error.
\<close>

record dlq_message =
  envelope_event :: jsval
  envelope_error :: js_error

definition generateEventDeadLetterQueueMessage :: "jsval \<Rightarrow> js_error \<Rightarrow> dlq_message" where
  "generateEventDeadLetterQueueMessage ev err = \<lparr>envelope_event = ev, envelope_error = err\<rparr>"

datatype log_line =
    LogError js_error  \<comment> \<open>\<^verbatim>\<open>status.info(bell, err)\<close>\<close>
  | LogDlqError js_error  \<comment> \<open>\<^verbatim>\<open>status.info(bell, `Errored trying to add event to dead letter queue. Error: ${dlqError}`)\<close>\<close>

datatype effect =
    StatsdIncrement string "(string \<times> tagval) list"
  | StatsdTiming string "(string \<times> tagval) list"
  | StatusInfo log_line
  | SentryCaptureException js_error sentry_extra
  | QueueMessage dlq_message
  | TimeoutGuard nat string guard_context
  | ClearTimeout nat
  | StepCalled string "jsval list"

text \<open>
  The state: \<open>world\<close> is everything outside the runner (database, Kafka, plugins) and is
  opaque; \<open>heap\<close> is the store of person containers, addressed by position; \<open>effects\<close> is
  the runner's trace; \<open>timers\<close> are the pending timeouts with their handles.
\<close>

type_synonym pending = "(nat \<times> string \<times> guard_context) list"

record 'w state =
  world :: 'w
  heap :: "LazyPersonContainer list"
  effects :: "effect list"
  timers :: pending
  next_handle :: nat

text \<open>
  Steps and collaborators act on the world and on the containers only, so the trace and
  the timers hold what the runner itself does.
\<close>

type_synonym 'w ext = "'w \<times> LazyPersonContainer list"

definition ext_of :: "'w state \<Rightarrow> 'w ext" where
  "ext_of s = (world s, heap s)"

definition with_ext :: "'w ext \<Rightarrow> 'w state \<Rightarrow> 'w state" where
  "with_ext x s = s\<lparr>world := fst x, heap := snd x\<rparr>"

definition emit :: "effect \<Rightarrow> 'w state \<Rightarrow> 'w state" where
  "emit e s = s\<lparr>effects := effects s @ [e]\<rparr>"

definition statsd_increment :: "string \<Rightarrow> (string \<times> tagval) list \<Rightarrow> 'w state \<Rightarrow> 'w state" where
  "statsd_increment name tags s = emit (StatsdIncrement name tags) s"

definition statsd_timing :: "string \<Rightarrow> (string \<times> tagval) list \<Rightarrow> 'w state \<Rightarrow> 'w state" where
  "statsd_timing name tags s = emit (StatsdTiming name tags) s"

subsection \<open>Collaborators\<close>

text \<open>
  The hub: \<open>queueMessage\<close> is \<^verbatim>\<open>hub.db.kafkaProducer.queueMessage\<close>, the emitter of the
  spec (\<^verbatim>\<open>submit(envelope) -> may fail\<close>): awaited, it fulfils (\<open>None\<close>) or rejects with an
  error. \<open>fetchPerson\<close> is the person lookup by team and distinct id behind a container's
  resolution, returning the person, undefined, or an error.
\<close>

record 'w Hub =
  queueMessage :: "dlq_message \<Rightarrow> 'w \<Rightarrow> js_error option \<times> 'w"
  fetchPerson :: "jsval \<Rightarrow> jsval \<Rightarrow> 'w \<Rightarrow> (js_error + jsval) \<times> 'w"

record 'w EventPipelineRunner =
  hub :: "'w Hub"
  originalEvent :: jsval

text \<open>
  A step function is called with the runner and its arguments. The call either throws at
  once or returns a promise; awaiting the promise fulfils with a \<open>StepResult\<close>, rejects
  with an error, or never settles (\<open>None\<close>). \<open>Returned\<close> is a call that returns a value that
  is not a promise, as the inherited members of the registry object do.

  The timeout guard watches whatever runs while it is pending. So that a statement can
  say which guards watch a step, both the call and the settling of its promise receive
  the list of the timers pending at that moment (\<open>timers\<close> of the state).
\<close>

datatype plain = Falsy | AnObject | ObjectString

datatype 'w called =
    Threw js_error
  | Promise "pending \<Rightarrow> 'w ext \<Rightarrow> (settled \<times> 'w ext) option"
  | Returned plain

type_synonym 'w step_fn =
  "'w EventPipelineRunner \<Rightarrow> jsval list \<Rightarrow> pending \<Rightarrow> 'w ext \<Rightarrow> 'w called \<times> 'w ext"

record 'w step_impls =
  populateTeamDataStep :: "'w step_fn"
  emitToBufferStep :: "'w step_fn"
  pluginsProcessEventStep :: "'w step_fn"
  processPersonsStep :: "'w step_fn"
  prepareEventStep :: "'w step_fn"
  createEventStep :: "'w step_fn"
  runAsyncHandlersStep :: "'w step_fn"

text \<open>The registry \<^verbatim>\<open>EVENT_PIPELINE_STEPS\<close>, an object literal keyed by step name.\<close>

definition EVENT_PIPELINE_STEPS :: "'w step_impls \<Rightarrow> (string \<times> 'w step_fn) list" where
  "EVENT_PIPELINE_STEPS impls =
     [(''populateTeamDataStep'', populateTeamDataStep impls),
      (''emitToBufferStep'', emitToBufferStep impls),
      (''pluginsProcessEventStep'', pluginsProcessEventStep impls),
      (''processPersonsStep'', processPersonsStep impls),
      (''prepareEventStep'', prepareEventStep impls),
      (''createEventStep'', createEventStep impls),
      (''runAsyncHandlersStep'', runAsyncHandlersStep impls)]"

definition STEPS_TO_EMIT_TO_DLQ_ON_FAILURE :: "string list" where
  "STEPS_TO_EMIT_TO_DLQ_ON_FAILURE =
     [''populateTeamDataStep'',
      ''emitToBufferStep'',
      ''pluginsProcessEventStep'',
      ''processPersonsStep'',
      ''prepareEventStep'',
      ''createEventStep'']"

text \<open>
  \<^verbatim>\<open>EVENT_PIPELINE_STEPS[name]\<close> is a property read. For a name that is neither one of the
  seven keys nor inherited, it reads undefined, and calling undefined throws a TypeError.
\<close>

definition not_a_function :: js_error where
  "not_a_function = JsError ''EVENT_PIPELINE_STEPS[name] is not a function''"

text \<open>
  The object literal inherits the members of \<^verbatim>\<open>Object.prototype\<close>, and the property read
  finds them. \<open>inherited_member name\<close> is what \<^verbatim>\<open>EVENT_PIPELINE_STEPS[name](this, ...args)\<close>
  does for such a name, the registry being the receiver and the runner the first
  argument:
  \<^item> \<^verbatim>\<open>hasOwnProperty\<close>, \<^verbatim>\<open>propertyIsEnumerable\<close>, \<^verbatim>\<open>isPrototypeOf\<close> return false (the runner,
    as a property key, is \<^verbatim>\<open>[object Object]\<close>, which the registry does not have; the registry
    is not a prototype of the runner);
  \<^item> \<^verbatim>\<open>__lookupGetter__\<close>, \<^verbatim>\<open>__lookupSetter__\<close> return undefined;
  \<^item> \<^verbatim>\<open>constructor\<close> is \<^verbatim>\<open>Object\<close>, which returns the runner; \<^verbatim>\<open>valueOf\<close> returns the registry;
  \<^item> \<^verbatim>\<open>toString\<close>, \<^verbatim>\<open>toLocaleString\<close> return the string \<^verbatim>\<open>[object Object]\<close>;
  \<^item> \<^verbatim>\<open>__defineGetter__\<close>, \<^verbatim>\<open>__defineSetter__\<close> throw, their second argument (the first
    step argument, data) not being a function;
  \<^item> \<^verbatim>\<open>__proto__\<close> reads \<^verbatim>\<open>Object.prototype\<close>, an object, and calling it throws as calling
    undefined does.
\<close>

definition Object_prototype_names :: "string list" where
  "Object_prototype_names =
     [''constructor'', ''__defineGetter__'', ''__defineSetter__'', ''hasOwnProperty'',
      ''__lookupGetter__'', ''__lookupSetter__'', ''isPrototypeOf'', ''propertyIsEnumerable'',
      ''toString'', ''valueOf'', ''__proto__'', ''toLocaleString'']"

definition inherited_member :: "string \<Rightarrow> 'w called option" where
  "inherited_member name =
     (if name \<in> set [''hasOwnProperty'', ''propertyIsEnumerable'', ''isPrototypeOf'',
                      ''__lookupGetter__'', ''__lookupSetter__''] then Some (Returned Falsy)
      else if name \<in> set [''constructor'', ''valueOf''] then Some (Returned AnObject)
      else if name \<in> set [''toString'', ''toLocaleString''] then Some (Returned ObjectString)
      else if name = ''__defineGetter__'' then
        Some (Threw (JsError ''Object.prototype.__defineGetter__: Expecting function''))
      else if name = ''__defineSetter__'' then
        Some (Threw (JsError ''Object.prototype.__defineSetter__: Expecting function''))
      else if name = ''__proto__'' then Some (Threw not_a_function)
      else None)"

text \<open>
  The errors of the loop itself on such values: the destructuring
  \<^verbatim>\<open>[currentStepName, currentArgs] = stepResult\<close> of an object that is not iterable, and
  \<^verbatim>\<open>currentArgs.map\<close> in \<^verbatim>\<open>handleError\<close> when \<^verbatim>\<open>currentArgs\<close> is a string.
\<close>

definition not_iterable :: js_error where
  "not_iterable = JsError ''stepResult is not iterable''"

definition map_not_a_function :: js_error where
  "map_not_a_function = JsError ''currentArgs.map is not a function''"

subsection \<open>The timeout guard\<close>

text \<open>
  Modelled from the spec: \<^verbatim>\<open>timeoutGuard\<close> (utils/db/utils.ts is not part of the sources at
  hand). The spec's guard is \<^verbatim>\<open>acquire(thresholdDuration, diagnosticContext) -> releaseHandle\<close>:
  it registers a pending timer that, unless released first, logs a warning with the
  context; it never interrupts the guarded work. Release is \<^verbatim>\<open>clearTimeout\<close>, which removes
  the timer and is idempotent.
\<close>

definition timeoutGuard :: "string \<Rightarrow> guard_context \<Rightarrow> 'w state \<Rightarrow> nat \<times> 'w state" where
  "timeoutGuard msg ctx s =
     (let h = next_handle s
      in (h, emit (TimeoutGuard h msg ctx)
               (s\<lparr>timers := timers s @ [(h, msg, ctx)], next_handle := Suc h\<rparr>)))"

definition clearTimeout :: "nat \<Rightarrow> 'w state \<Rightarrow> 'w state" where
  "clearTimeout h s = emit (ClearTimeout h) (s\<lparr>timers := filter (\<lambda>t. fst t \<noteq> h) (timers s)\<rparr>)"

text \<open>
  Modelled from the spec: \<^verbatim>\<open>runInSpan\<close> (sentry.ts is not part of the sources at hand). The
  tracing backend is an out-of-scope collaborator of the spec; the wrapper runs the
  callback and hands back what it returns or throws.
\<close>

record span_context =
  span_op :: string
  span_description :: string

definition runInSpan :: "span_context \<Rightarrow> ('s \<Rightarrow> 'a) \<Rightarrow> 's \<Rightarrow> 'a" where
  "runInSpan ctx callback s = callback s"

subsection \<open>The runner\<close>

text \<open>
  \<^verbatim>\<open>serialize\<close>: a person container is reduced to three of its fields, read when called.
  Objects are never freed, so a reference always points into the store; for a reference
  outside it the three reads give undefined.
\<close>

definition serialize :: "'w state \<Rightarrow> jsval \<Rightarrow> jsval" where
  "serialize s arg =
     (case arg of
        JContainer a \<Rightarrow>
          (if a < length (heap s)
           then JObj [(''teamId'', teamId (heap s ! a)),
                      (''distinctId'', distinctId (heap s ! a)),
                      (''loaded'', JBool (loaded (heap s ! a)))]
           else JObj [(''teamId'', JUndefined), (''distinctId'', JUndefined), (''loaded'', JUndefined)])
      | _ \<Rightarrow> arg)"

text \<open>
  \<^verbatim>\<open>runStep\<close> is not an async function: the guard is set, the step function is called
  (with that guard pending), and the \<^verbatim>\<open>finally\<close> block clears the guard as soon as the call
  has returned its promise or thrown. The promise is awaited by the caller.
\<close>

definition runStep ::
  "'w step_impls \<Rightarrow> 'w EventPipelineRunner \<Rightarrow> string \<Rightarrow> jsval list \<Rightarrow> 'w state \<Rightarrow> 'w called \<times> 'w state" where
  "runStep impls runner name as s =
     runInSpan \<lparr>span_op = ''runStep'', span_description = name\<rparr>
       (\<lambda>s0.
          let (timeout, s1) =
                timeoutGuard ''Event pipeline step stalled. Timeout warning after 30 sec!''
                  \<lparr>guard_step = name, guard_event = originalEvent runner\<rparr> s0;
              s2 = emit (StepCalled name as) s1;
              (r, s3) =
                (case map_of (EVENT_PIPELINE_STEPS impls) name of
                   Some f \<Rightarrow> (let (c, x) = f runner as (timers s2) (ext_of s2) in (c, with_ext x s2))
                 | None \<Rightarrow>
                     (case inherited_member name of
                        Some c \<Rightarrow> (c, s2)
                      | None \<Rightarrow> (Threw not_a_function, s2)))
          in (r, clearTimeout timeout s3))
       s"

text \<open>
  \<^verbatim>\<open>await this.runStep(...)\<close> inside the \<^verbatim>\<open>try\<close> of \<^verbatim>\<open>runPipeline\<close>. The promise settles
  in the state \<^verbatim>\<open>runStep\<close> has left, with the timers pending there.
\<close>

definition await_runStep ::
  "'w step_impls \<Rightarrow> 'w EventPipelineRunner \<Rightarrow> string \<Rightarrow> jsval list \<Rightarrow> 'w state \<Rightarrow> (settled \<times> 'w state) option" where
  "await_runStep impls runner name as s =
     (case runStep impls runner name as s of
        (Threw err, s1) \<Rightarrow> Some (Rejected err, s1)
      | (Promise p, s1) \<Rightarrow>
          (case p (timers s1) (ext_of s1) of
             None \<Rightarrow> None
           | Some (r, x) \<Rightarrow> Some (r, with_ext x s1))
      | (Returned Falsy, s1) \<Rightarrow> Some (Fulfilled None, s1)
      | (Returned AnObject, s1) \<Rightarrow> Some (FulfilledObject, s1)
      | (Returned ObjectString, s1) \<Rightarrow> Some (FulfilledObjectString, s1))"

text \<open>\<^verbatim>\<open>handleError\<close>: \<open>Some err\<close> in the first component is \<^verbatim>\<open>throw err\<close>.\<close>

definition handleError ::
  "'w EventPipelineRunner \<Rightarrow> js_error \<Rightarrow> string \<Rightarrow> jsval list \<Rightarrow> 'w state \<Rightarrow> js_error option \<times> 'w state" where
  "handleError runner err name as s =
     (let sargs = map (serialize s) as;
          s1 = emit (StatusInfo (LogError err)) s;
          s2 = emit (SentryCaptureException err
                 \<lparr>currentStepName = name, serializedArgs = sargs,
                  extra_originalEvent = originalEvent runner, extra_err = None\<rparr>) s1;
          s3 = statsd_increment ''kafka_queue.event_pipeline.step.error'' [(''step'', TStr name)] s2
      in if instanceofDependencyUnavailableError err then (Some err, s3)
         else if name \<in> set STEPS_TO_EMIT_TO_DLQ_ON_FAILURE then
           (let msg = generateEventDeadLetterQueueMessage (originalEvent runner) err;
                (r, w) = queueMessage (hub runner) msg (world s3);
                s4 = (emit (QueueMessage msg) s3)\<lparr>world := w\<rparr>
            in case r of
                 None \<Rightarrow> (None, statsd_increment ''events_added_to_dead_letter_queue'' [] s4)
               | Some dlqError \<Rightarrow>
                   (None,
                    emit (SentryCaptureException dlqError
                      \<lparr>currentStepName = name, serializedArgs = sargs,
                       extra_originalEvent = originalEvent runner, extra_err = Some err\<rparr>)
                      (emit (StatusInfo (LogDlqError dlqError)) s4)))
         else (None, s3))"

text \<open>
  \<^verbatim>\<open>runPipeline\<close>: the loop \<^verbatim>\<open>while (true)\<close>. \<open>None\<close> is a run that never returns; \<open>Inl err\<close>
  is an error thrown to the caller, \<open>Inr r\<close> the returned result.

  The last two cases are those of the inherited members. An object is truthy, and its
  destructuring throws inside the \<^verbatim>\<open>try\<close>, after the two step counters. The string
  \<^verbatim>\<open>[object Object]\<close> is truthy and iterable: its destructuring sets \<^verbatim>\<open>currentStepName\<close> to
  \<^verbatim>\<open>[\<close> and \<^verbatim>\<open>currentArgs\<close> to the string \<^verbatim>\<open>o\<close>. The next iteration calls
  \<^verbatim>\<open>runStep("[", ..."o")\<close>; no property is named \<^verbatim>\<open>[\<close>, so the call throws, and
  \<^verbatim>\<open>handleError\<close> throws in its first line, \<^verbatim>\<open>currentArgs.map\<close>, a string having no \<^verbatim>\<open>map\<close>:
  that error leaves \<^verbatim>\<open>runPipeline\<close>.
\<close>

partial_function (option) runPipeline ::
  "'w step_impls \<Rightarrow> 'w EventPipelineRunner \<Rightarrow> string \<Rightarrow> jsval list \<Rightarrow> 'w state
     \<Rightarrow> ((js_error + EventPipelineResult) \<times> 'w state) option" where
  "runPipeline impls runner name as s =
     (case await_runStep impls runner name as s of
        None \<Rightarrow> None
      | Some (Fulfilled stepResult, s1) \<Rightarrow>
          (let s2 = statsd_timing ''kafka_queue.event_pipeline.step.timing'' [(''step'', TStr name)]
                      (statsd_increment ''kafka_queue.event_pipeline.step'' [(''step'', TStr name)] s1)
           in case stepResult of
                Some (nextName, nextArgs) \<Rightarrow> runPipeline impls runner nextName nextArgs s2
              | None \<Rightarrow>
                  (let s3 = statsd_increment ''kafka_queue.event_pipeline.step.last''
                              [(''step'', TStr name),
                               (''team_id'', TString (get_prop (originalEvent runner) ''team_id''))] s2
                   in Some (Inr \<lparr>lastStep = name, args = map (serialize s3) as, error = None\<rparr>, s3)))
      | Some (Rejected err, s1) \<Rightarrow>
          (case handleError runner err name as s1 of
             (Some thrown, s2) \<Rightarrow> Some (Inl thrown, s2)
           | (None, s2) \<Rightarrow>
               Some (Inr \<lparr>lastStep = name, args = map (serialize s2) as,
                          error = Some (message err)\<rparr>, s2))
      | Some (FulfilledObject, s1) \<Rightarrow>
          (let s2 = statsd_timing ''kafka_queue.event_pipeline.step.timing'' [(''step'', TStr name)]
                      (statsd_increment ''kafka_queue.event_pipeline.step'' [(''step'', TStr name)] s1)
           in case handleError runner not_iterable name as s2 of
                (Some thrown, s3) \<Rightarrow> Some (Inl thrown, s3)
              | (None, s3) \<Rightarrow>
                  Some (Inr \<lparr>lastStep = name, args = map (serialize s3) as,
                             error = Some (message not_iterable)\<rparr>, s3))
      | Some (FulfilledObjectString, s1) \<Rightarrow>
          (let s2 = statsd_timing ''kafka_queue.event_pipeline.step.timing'' [(''step'', TStr name)]
                      (statsd_increment ''kafka_queue.event_pipeline.step'' [(''step'', TStr name)] s1)
           in Some (Inl map_not_a_function, snd (runStep impls runner ''['' [JStr ''o''] s2))))"

subsection \<open>Person containers\<close>

text \<open>
  Modelled from the spec: the constructor and the \<^verbatim>\<open>get\<close> method of \<^verbatim>\<open>LazyPersonContainer\<close>
  (lazy-person-container.ts is not part of the sources at hand). \<^verbatim>\<open>new\<close> allocates an
  unresolved container at the next free address. \<^verbatim>\<open>get\<close> is the spec's idempotent
  \<^verbatim>\<open>resolve() -> actor-or-absent\<close>, memoized after the first call; a failed lookup throws.
  It is only called on a container of the store.
\<close>

definition new_LazyPersonContainer :: "jsval \<Rightarrow> jsval \<Rightarrow> 'w state \<Rightarrow> nat \<times> 'w state" where
  "new_LazyPersonContainer team_id distinct_id s =
     (length (heap s),
      s\<lparr>heap := heap s @ [\<lparr>teamId = team_id, distinctId = distinct_id, loaded = False, resolved = None\<rparr>]\<rparr>)"

definition LazyPersonContainer_get :: "'w Hub \<Rightarrow> nat \<Rightarrow> 'w state \<Rightarrow> (js_error + jsval) \<times> 'w state" where
  "LazyPersonContainer_get h a s =
     (if a < length (heap s) then
        (let c = heap s ! a
         in case resolved c of
              Some person \<Rightarrow> (Inr person, s)
            | None \<Rightarrow>
                (case fetchPerson h (teamId c) (distinctId c) (world s) of
                   (Inl err, w) \<Rightarrow> (Inl err, s\<lparr>world := w\<rparr>)
                 | (Inr person, w) \<Rightarrow>
                     (Inr person,
                      s\<lparr>world := w,
                        heap := (heap s)[a := c\<lparr>loaded := True, resolved := Some person\<rparr>]\<rparr>)))
      else (Inr JUndefined, s))"

text \<open>JavaScript truthiness, for \<^verbatim>\<open>!!v\<close>.\<close>

fun truthy :: "jsval \<Rightarrow> bool" where
  "truthy JUndefined = False"
| "truthy JNull = False"
| "truthy (JBool b) = b"
| "truthy (JNum n) = (n \<noteq> 0)"
| "truthy (JStr s) = (s \<noteq> [])"
| "truthy _ = True"

subsection \<open>The four entry points\<close>

text \<open>
  Each entry point emits its start counter, runs the loop from its first step, and emits
  its closing counter once the loop has returned a result. An error thrown by
  \<^verbatim>\<open>runPipeline\<close> leaves the method before the closing counter.
\<close>

definition runLightweightCaptureEndpointEventPipeline ::
  "'w step_impls \<Rightarrow> 'w EventPipelineRunner \<Rightarrow> jsval \<Rightarrow> 'w state
     \<Rightarrow> ((js_error + EventPipelineResult) \<times> 'w state) option" where
  "runLightweightCaptureEndpointEventPipeline impls runner event s =
     (let s1 = statsd_increment ''kafka_queue.lightweight_capture_endpoint_event_pipeline.start''
                 [(''pipeline'', TStr ''lightweight_capture'')] s
      in case runPipeline impls runner ''populateTeamDataStep'' [event] s1 of
           None \<Rightarrow> None
         | Some (Inl err, s2) \<Rightarrow> Some (Inl err, s2)
         | Some (Inr result, s2) \<Rightarrow>
             Some (Inr result,
                   statsd_increment ''kafka_queue.single_event.processed_and_ingested'' [] s2))"

definition runEventPipeline ::
  "'w step_impls \<Rightarrow> 'w EventPipelineRunner \<Rightarrow> jsval \<Rightarrow> 'w state
     \<Rightarrow> ((js_error + EventPipelineResult) \<times> 'w state) option" where
  "runEventPipeline impls runner event s =
     (let s1 = statsd_increment ''kafka_queue.event_pipeline.start'' [(''pipeline'', TStr ''event'')] s
      in case runPipeline impls runner ''emitToBufferStep'' [event] s1 of
           None \<Rightarrow> None
         | Some (Inl err, s2) \<Rightarrow> Some (Inl err, s2)
         | Some (Inr result, s2) \<Rightarrow>
             Some (Inr result,
                   statsd_increment ''kafka_queue.single_event.processed_and_ingested'' [] s2))"

definition runBufferEventPipeline ::
  "'w step_impls \<Rightarrow> 'w EventPipelineRunner \<Rightarrow> jsval \<Rightarrow> 'w state
     \<Rightarrow> ((js_error + EventPipelineResult) \<times> 'w state) option" where
  "runBufferEventPipeline impls runner event s =
     (let s1 = statsd_increment ''kafka_queue.event_pipeline.start'' [(''pipeline'', TStr ''buffer'')] s;
          (personContainer, s2) =
             new_LazyPersonContainer (get_prop event ''team_id'') (get_prop event ''distinct_id'') s1
      in case LazyPersonContainer_get (hub runner) personContainer s2 of
           (Inl err, s3) \<Rightarrow> Some (Inl err, s3)
         | (Inr person, s3) \<Rightarrow>
             (let didPersonExistAtStart = truthy person
              in case runPipeline impls runner ''pluginsProcessEventStep''
                        [event, JContainer personContainer] s3 of
                   None \<Rightarrow> None
                 | Some (Inl err, s4) \<Rightarrow> Some (Inl err, s4)
                 | Some (Inr result, s4) \<Rightarrow>
                     Some (Inr result,
                           statsd_increment ''kafka_queue.buffer_event.processed_and_ingested''
                             [(''didPersonExistAtStart'', TString (JBool didPersonExistAtStart))] s4)))"

definition runAsyncHandlersEventPipeline ::
  "'w step_impls \<Rightarrow> 'w EventPipelineRunner \<Rightarrow> jsval \<Rightarrow> 'w state
     \<Rightarrow> ((js_error + EventPipelineResult) \<times> 'w state) option" where
  "runAsyncHandlersEventPipeline impls runner event s =
     (let s1 = statsd_increment ''kafka_queue.event_pipeline.start''
                 [(''pipeline'', TStr ''asyncHandlers'')] s;
          (personContainer, s2) =
             new_LazyPersonContainer (get_prop event ''teamId'') (get_prop event ''distinctId'') s1
      in case runPipeline impls runner ''runAsyncHandlersStep''
                [event, JContainer personContainer] s2 of
           None \<Rightarrow> None
         | Some (Inl err, s3) \<Rightarrow> Some (Inl err, s3)
         | Some (Inr result, s3) \<Rightarrow>
             Some (Inr result, statsd_increment ''kafka_queue.async_handlers.processed'' [] s3))"

section \<open>Historical export\<close>













section \<open>Notions used in the statements\<close>

subsection \<open>Runs of the loop\<close>

text \<open>The two counters emitted after a step has fulfilled.\<close>

definition step_done :: "string \<Rightarrow> 'w state \<Rightarrow> 'w state" where
  "step_done name s =
     statsd_timing ''kafka_queue.event_pipeline.step.timing'' [(''step'', TStr name)]
       (statsd_increment ''kafka_queue.event_pipeline.step'' [(''step'', TStr name)] s)"

text \<open>The counter emitted when a step has returned null.\<close>

definition step_last :: "'w EventPipelineRunner \<Rightarrow> string \<Rightarrow> 'w state \<Rightarrow> 'w state" where
  "step_last runner name s =
     statsd_increment ''kafka_queue.event_pipeline.step.last''
       [(''step'', TStr name), (''team_id'', TString (get_prop (originalEvent runner) ''team_id''))] s"

text \<open>
  \<open>reaches impls runner (n, as, s) (n', as', s')\<close>: starting the loop at step \<open>n\<close> with
  arguments \<open>as\<close> in state \<open>s\<close>, finitely many steps each fulfil with a continuation, and
  the loop stands at step \<open>n'\<close> with arguments \<open>as'\<close> in state \<open>s'\<close>.
\<close>

inductive reaches ::
  "'w step_impls \<Rightarrow> 'w EventPipelineRunner \<Rightarrow> string \<times> jsval list \<times> 'w state
     \<Rightarrow> string \<times> jsval list \<times> 'w state \<Rightarrow> bool"
  for impls :: "'w step_impls" and runner :: "'w EventPipelineRunner" where
  reaches_here: "reaches impls runner c c"
| reaches_next:
    "await_runStep impls runner name as s = Some (Fulfilled (Some (name', as')), s1) \<Longrightarrow>
     reaches impls runner (name', as', step_done name s1) c \<Longrightarrow>
     reaches impls runner (name, as, s) c"

text \<open>
  The loop goes on after a continuation and leaves on everything else: on null, on a
  thrown error, and on the two values of the inherited members.
\<close>

fun stops :: "settled \<Rightarrow> bool" where
  "stops (Fulfilled None) = True"
| "stops (Fulfilled (Some c)) = False"
| "stops (Rejected err) = True"
| "stops FulfilledObject = True"
| "stops FulfilledObjectString = True"

text \<open>
  What \<^verbatim>\<open>runPipeline\<close> does after the await of the step it leaves on: the exits of the
  loop, as in its definition.
\<close>

definition finish ::
  "'w step_impls \<Rightarrow> 'w EventPipelineRunner \<Rightarrow> string \<Rightarrow> jsval list \<Rightarrow> settled \<Rightarrow> 'w state
     \<Rightarrow> (js_error + EventPipelineResult) \<times> 'w state" where
  "finish impls runner name as st s1 =
     (case st of
        Fulfilled r \<Rightarrow>
          (let s3 = step_last runner name (step_done name s1)
           in (Inr \<lparr>lastStep = name, args = map (serialize s3) as, error = None\<rparr>, s3))
      | Rejected err \<Rightarrow>
          (case handleError runner err name as s1 of
             (Some thrown, s2) \<Rightarrow> (Inl thrown, s2)
           | (None, s2) \<Rightarrow>
               (Inr \<lparr>lastStep = name, args = map (serialize s2) as, error = Some (message err)\<rparr>, s2))
      | FulfilledObject \<Rightarrow>
          (case handleError runner not_iterable name as (step_done name s1) of
             (Some thrown, s3) \<Rightarrow> (Inl thrown, s3)
           | (None, s3) \<Rightarrow>
               (Inr \<lparr>lastStep = name, args = map (serialize s3) as,
                     error = Some (message not_iterable)\<rparr>, s3))
      | FulfilledObjectString \<Rightarrow>
          (Inl map_not_a_function, snd (runStep impls runner ''['' [JStr ''o''] (step_done name s1))))"

subsection \<open>Reading the trace\<close>

text \<open>The messages handed to the Kafka producer, in order: the dead-letter submissions.\<close>

fun dlq_submissions :: "effect list \<Rightarrow> dlq_message list" where
  "dlq_submissions [] = []"
| "dlq_submissions (QueueMessage m # es) = m # dlq_submissions es"
| "dlq_submissions (e # es) = dlq_submissions es"

text \<open>The counters the entry points emit after the loop, and their occurrences in a trace.\<close>

definition closing_counters :: "string list" where
  "closing_counters =
     [''kafka_queue.single_event.processed_and_ingested'',
      ''kafka_queue.buffer_event.processed_and_ingested'',
      ''kafka_queue.async_handlers.processed'']"

fun is_closing :: "effect \<Rightarrow> bool" where
  "is_closing (StatsdIncrement n tags) = (n \<in> set closing_counters)"
| "is_closing e = False"

definition closing_emitted :: "effect list \<Rightarrow> effect list" where
  "closing_emitted es = filter is_closing es"

text \<open>The trace of one \<^verbatim>\<open>runStep\<close>: guard set, step called, guard cleared.\<close>

definition guard_effects :: "'w EventPipelineRunner \<Rightarrow> string \<Rightarrow> jsval list \<Rightarrow> nat \<Rightarrow> effect list" where
  "guard_effects runner name as h =
     [TimeoutGuard h ''Event pipeline step stalled. Timeout warning after 30 sec!''
        \<lparr>guard_step = name, guard_event = originalEvent runner\<rparr>,
      StepCalled name as,
      ClearTimeout h]"

text \<open>What \<^verbatim>\<open>handleError\<close> always does first: log, report to Sentry, count.\<close>

definition error_report :: "'w EventPipelineRunner \<Rightarrow> js_error \<Rightarrow> string \<Rightarrow> jsval list \<Rightarrow> 'w state \<Rightarrow> effect list" where
  "error_report runner err name as s =
     [StatusInfo (LogError err),
      SentryCaptureException err
        \<lparr>currentStepName = name, serializedArgs = map (serialize s) as,
         extra_originalEvent = originalEvent runner, extra_err = None\<rparr>,
      StatsdIncrement ''kafka_queue.event_pipeline.step.error'' [(''step'', TStr name)]]"

subsection \<open>The entry points as one family\<close>

text \<open>
  The four public methods, indexed by a name, so that a statement can range over them.
  \<open>closing_name\<close> is the counter each emits after the loop.
\<close>

datatype pipeline = LightweightCapture | LiveEvent | BufferedEvent | AsyncHandlers

fun runVariant ::
  "pipeline \<Rightarrow> 'w step_impls \<Rightarrow> 'w EventPipelineRunner \<Rightarrow> jsval \<Rightarrow> 'w state
     \<Rightarrow> ((js_error + EventPipelineResult) \<times> 'w state) option" where
  "runVariant LightweightCapture = runLightweightCaptureEndpointEventPipeline"
| "runVariant LiveEvent = runEventPipeline"
| "runVariant BufferedEvent = runBufferEventPipeline"
| "runVariant AsyncHandlers = runAsyncHandlersEventPipeline"

fun closing_name :: "pipeline \<Rightarrow> string" where
  "closing_name LightweightCapture = ''kafka_queue.single_event.processed_and_ingested''"
| "closing_name LiveEvent = ''kafka_queue.single_event.processed_and_ingested''"
| "closing_name BufferedEvent = ''kafka_queue.buffer_event.processed_and_ingested''"
| "closing_name AsyncHandlers = ''kafka_queue.async_handlers.processed''"

text \<open>
  What a method has done when it reaches its call of \<^verbatim>\<open>runPipeline\<close>: \<open>Seeded n as s tags\<close>
  is the first step, its arguments, the state at that point and the tags of the closing
  counter; \<open>ThrownBeforeLoop\<close> is an error that left the method before the loop (the person
  lookup of the buffer pipeline). \<open>entry\<close> computes it for each method, \<open>run_seeded\<close> is the
  rest of the method: the loop, then the closing counter if the loop returned a result.
  That each method is \<open>run_seeded\<close> of its \<open>entry\<close> is lemma \<open>runVariant_seeded\<close>.
\<close>

datatype 'w seeded =
    ThrownBeforeLoop js_error "'w state"
  | Seeded string "jsval list" "'w state" "(string \<times> tagval) list"

fun entry :: "pipeline \<Rightarrow> 'w EventPipelineRunner \<Rightarrow> jsval \<Rightarrow> 'w state \<Rightarrow> 'w seeded" where
  "entry LightweightCapture runner event s =
     Seeded ''populateTeamDataStep'' [event]
       (statsd_increment ''kafka_queue.lightweight_capture_endpoint_event_pipeline.start''
          [(''pipeline'', TStr ''lightweight_capture'')] s) []"
| "entry LiveEvent runner event s =
     Seeded ''emitToBufferStep'' [event]
       (statsd_increment ''kafka_queue.event_pipeline.start'' [(''pipeline'', TStr ''event'')] s) []"
| "entry BufferedEvent runner event s =
     (let a = length (heap s);
          s2 = (statsd_increment ''kafka_queue.event_pipeline.start'' [(''pipeline'', TStr ''buffer'')] s)
                 \<lparr>heap := heap s @ [\<lparr>teamId = get_prop event ''team_id'',
                                     distinctId = get_prop event ''distinct_id'',
                                     loaded = False, resolved = None\<rparr>]\<rparr>
      in case LazyPersonContainer_get (hub runner) a s2 of
           (Inl err, s3) \<Rightarrow> ThrownBeforeLoop err s3
         | (Inr person, s3) \<Rightarrow>
             Seeded ''pluginsProcessEventStep'' [event, JContainer a] s3
               [(''didPersonExistAtStart'', TString (JBool (truthy person)))])"
| "entry AsyncHandlers runner event s =
     Seeded ''runAsyncHandlersStep'' [event, JContainer (length (heap s))]
       ((statsd_increment ''kafka_queue.event_pipeline.start'' [(''pipeline'', TStr ''asyncHandlers'')] s)
          \<lparr>heap := heap s @ [\<lparr>teamId = get_prop event ''teamId'',
                              distinctId = get_prop event ''distinctId'',
                              loaded = False, resolved = None\<rparr>]\<rparr>) []"

definition run_seeded ::
  "pipeline \<Rightarrow> 'w step_impls \<Rightarrow> 'w EventPipelineRunner \<Rightarrow> 'w seeded
     \<Rightarrow> ((js_error + EventPipelineResult) \<times> 'w state) option" where
  "run_seeded v impls runner sd =
     (case sd of
        ThrownBeforeLoop err s' \<Rightarrow> Some (Inl err, s')
      | Seeded name as s1 tags \<Rightarrow>
          (case runPipeline impls runner name as s1 of
             None \<Rightarrow> None
           | Some (Inl err, s2) \<Rightarrow> Some (Inl err, s2)
           | Some (Inr result, s2) \<Rightarrow> Some (Inr result, statsd_increment (closing_name v) tags s2)))"

subsection \<open>Sample collaborators\<close>

text \<open>
  Concrete steps, hub and events on which the theorems below are instantiated: the steps
  up to \<^verbatim>\<open>prepareEventStep\<close> pass their arguments on to the next step; the behaviour of
  the last two is a parameter. The world is a counter of delivered Kafka messages.
\<close>

definition continues_to :: "string \<Rightarrow> 'w step_fn" where
  "continues_to next runner as pd x =
     (Promise (\<lambda>pd' x'. Some (Fulfilled (Some (nextStep next as)), x')), x)"

definition returns_null :: "'w step_fn" where
  "returns_null runner as pd x = (Promise (\<lambda>pd' x'. Some (Fulfilled None, x')), x)"

definition rejects_with :: "js_error \<Rightarrow> 'w step_fn" where
  "rejects_with err runner as pd x = (Promise (\<lambda>pd' x'. Some (Rejected err, x')), x)"

definition sample_impls :: "'w step_fn \<Rightarrow> 'w step_fn \<Rightarrow> 'w step_impls" where
  "sample_impls create async =
     \<lparr>populateTeamDataStep = continues_to ''emitToBufferStep'',
      emitToBufferStep = continues_to ''pluginsProcessEventStep'',
      pluginsProcessEventStep = continues_to ''processPersonsStep'',
      processPersonsStep = continues_to ''prepareEventStep'',
      prepareEventStep = continues_to ''createEventStep'',
      createEventStep = create,
      runAsyncHandlersStep = async\<rparr>"

definition sample_event :: jsval where
  "sample_event =
     JObj [(''uuid'', JStr ''u-1''), (''team_id'', JNum 2), (''distinct_id'', JStr ''d-1''),
           (''event'', JStr ''$pageview'')]"

definition sample_changed_event :: jsval where
  "sample_changed_event =
     JObj [(''uuid'', JStr ''u-1''), (''team_id'', JNum 2), (''distinct_id'', JStr ''d-1''),
           (''event'', JStr ''renamed by a plugin'')]"


definition sample_hub :: "bool \<Rightarrow> nat Hub" where
  "sample_hub kafka_up =
     \<lparr>queueMessage = (\<lambda>m w. if kafka_up then (None, Suc w) else (Some (JsError ''kafka is down''), w)),
      fetchPerson = (\<lambda>t d w. (Inr JUndefined, w))\<rparr>"

definition sample_runner :: "bool \<Rightarrow> nat EventPipelineRunner" where
  "sample_runner kafka_up = \<lparr>hub = sample_hub kafka_up, originalEvent = sample_event\<rparr>"

definition sample_state :: "nat state" where
  "sample_state = \<lparr>world = 0, heap = [], effects = [], timers = [], next_handle = 0\<rparr>"

text \<open>
  A step that notes which timers are pending, once when it is called and once when its
  promise settles; here the world is the list of these notes.
\<close>

definition watching_step :: "(pending list) step_fn" where
  "watching_step runner as pd x =
     (Promise (\<lambda>pd' x'. Some (Fulfilled None, (fst x' @ [pd'], snd x'))), (fst x @ [pd], snd x))"

definition watching_runner :: "(pending list) EventPipelineRunner" where
  "watching_runner =
     \<lparr>hub = \<lparr>queueMessage = (\<lambda>m w. (None, w)), fetchPerson = (\<lambda>t d w. (Inr JUndefined, w))\<rparr>,
      originalEvent = sample_event\<rparr>"

definition watching_state :: "(pending list) state" where
  "watching_state = \<lparr>world = [], heap = [], effects = [], timers = [], next_handle = 0\<rparr>"






section \<open>Properties\<close>

subsection \<open>The loop and its runs\<close>

lemma dlq_submissions_append:
  "dlq_submissions (xs @ ys) = dlq_submissions xs @ dlq_submissions ys"
  by (induction xs rule: dlq_submissions.induct) simp_all

lemma reaches_runPipeline:
  "reaches impls runner c c' \<Longrightarrow>
   runPipeline impls runner (fst c) (fst (snd c)) (snd (snd c)) =
   runPipeline impls runner (fst c') (fst (snd c')) (snd (snd c'))"
proof (induction rule: reaches.induct)
  case (reaches_here c)
  show ?case by simp
next
  case (reaches_next name as s name' as' s1 c)
  have "runPipeline impls runner name as s = runPipeline impls runner name' as' (step_done name s1)"
    using reaches_next.hyps(1) by (subst runPipeline.simps) (simp add: step_done_def)
  with reaches_next.IH show ?case by simp
qed

lemma runPipeline_stops:
  assumes "await_runStep impls runner name as s = Some (st, s1)" and "stops st"
  shows "runPipeline impls runner name as s = Some (finish impls runner name as st s1)"
proof (cases st)
  case (Fulfilled r)
  with assms(2) have "r = None" by (cases r) simp_all
  with Fulfilled assms(1) show ?thesis
    by (subst runPipeline.simps) (simp add: finish_def step_done_def step_last_def Let_def)
next
  case (Rejected err)
  with assms(1) show ?thesis
    by (subst runPipeline.simps) (simp add: finish_def split: prod.splits option.splits)
next
  case FulfilledObject
  with assms(1) show ?thesis
    by (subst runPipeline.simps)
       (simp add: finish_def step_done_def Let_def split: prod.splits option.splits)
next
  case FulfilledObjectString
  with assms(1) show ?thesis
    by (subst runPipeline.simps) (simp add: finish_def step_done_def Let_def)
qed

lemma reaches_trans:
  "reaches impls runner c c' \<Longrightarrow> reaches impls runner c' c'' \<Longrightarrow> reaches impls runner c c''"
  by (induction rule: reaches.induct) (auto intro: reaches.intros)

lemma runPipeline_returns:
  assumes "runPipeline impls runner name as s = Some y"
  shows "\<exists>l as' s0 st s1. reaches impls runner (name, as, s) (l, as', s0) \<and>
           await_runStep impls runner l as' s0 = Some (st, s1) \<and> stops st \<and>
           y = finish impls runner l as' st s1"
  using assms
proof (induct rule: runPipeline.raw_induct[rotated 1, consumes 1, case_names step])
  case (step rp impls runner name as s y)
  from step(2) obtain st s1 where aw: "await_runStep impls runner name as s = Some (st, s1)"
    by (cases "await_runStep impls runner name as s") auto
  show ?case
  proof (cases "stops st")
    case True
    have "y = finish impls runner name as st s1"
      using step(2) aw True
      by (cases st) (auto simp: finish_def step_done_def step_last_def Let_def split: option.splits prod.splits)
    with aw True show ?thesis by (blast intro: reaches_here)
  next
    case False
    then obtain n' a' where st: "st = Fulfilled (Some (n', a'))"
      by (cases st rule: stops.cases) auto
    with step(2) aw have "rp impls runner n' a' (step_done name s1) = Some y"
      by (simp add: step_done_def)
    from step(1)[OF this] obtain l as' s0 st' s1' where
      r: "reaches impls runner (n', a', step_done name s1) (l, as', s0)" and
      rest: "await_runStep impls runner l as' s0 = Some (st', s1')" "stops st'"
        "y = finish impls runner l as' st' s1'"
      by blast
    from aw st r have "reaches impls runner (name, as, s) (l, as', s0)"
      by (auto intro: reaches_next)
    with rest show ?thesis by blast
  qed
qed

subsection \<open>What one iteration adds to the trace\<close>

lemma runStep_effects:
  "effects (snd (runStep impls runner name as s)) =
     effects s @ guard_effects runner name as (next_handle s)"
  by (simp add: runStep_def runInSpan_def timeoutGuard_def clearTimeout_def emit_def with_ext_def
      guard_effects_def Let_def split: option.splits prod.splits)

lemma runStep_timers:
  "timers (snd (runStep impls runner name as s)) = filter (\<lambda>t. fst t \<noteq> next_handle s) (timers s)"
  by (simp add: runStep_def runInSpan_def timeoutGuard_def clearTimeout_def emit_def with_ext_def
      Let_def split: option.splits prod.splits)

lemma runStep_next_handle:
  "next_handle (snd (runStep impls runner name as s)) = Suc (next_handle s)"
  by (simp add: runStep_def runInSpan_def timeoutGuard_def clearTimeout_def emit_def with_ext_def
      Let_def split: option.splits prod.splits)

lemma await_runStep_frame:
  assumes "await_runStep impls runner name as s = Some (st, s1)"
  shows "effects s1 = effects s @ guard_effects runner name as (next_handle s)"
    and "timers s1 = filter (\<lambda>t. fst t \<noteq> next_handle s) (timers s)"
    and "next_handle s1 = Suc (next_handle s)"
proof -
  obtain c s' where rs: "runStep impls runner name as s = (c, s')"
    by (cases "runStep impls runner name as s")
  have e: "effects s' = effects s @ guard_effects runner name as (next_handle s)"
    using runStep_effects[of impls runner name as s] rs by simp
  have t: "timers s' = filter (\<lambda>t. fst t \<noteq> next_handle s) (timers s)"
    using runStep_timers[of impls runner name as s] rs by simp
  have n: "next_handle s' = Suc (next_handle s)"
    using runStep_next_handle[of impls runner name as s] rs by simp
  have "effects s1 = effects s' \<and> timers s1 = timers s' \<and> next_handle s1 = next_handle s'"
    using assms rs
    by (cases c) (auto simp: await_runStep_def with_ext_def split: option.splits plain.splits)
  with e t n show "effects s1 = effects s @ guard_effects runner name as (next_handle s)"
    and "timers s1 = filter (\<lambda>t. fst t \<noteq> next_handle s) (timers s)"
    and "next_handle s1 = Suc (next_handle s)"
    by simp_all
qed

lemma step_done_frame:
  "effects (step_done name s) =
     effects s @ [StatsdIncrement ''kafka_queue.event_pipeline.step'' [(''step'', TStr name)],
                  StatsdTiming ''kafka_queue.event_pipeline.step.timing'' [(''step'', TStr name)]]"
  "timers (step_done name s) = timers s"
  "next_handle (step_done name s) = next_handle s"
  "heap (step_done name s) = heap s"
  "world (step_done name s) = world s"
  by (simp_all add: step_done_def statsd_increment_def statsd_timing_def emit_def)

lemma step_last_frame:
  "effects (step_last runner name s) =
     effects s @ [StatsdIncrement ''kafka_queue.event_pipeline.step.last''
                    [(''step'', TStr name), (''team_id'', TString (get_prop (originalEvent runner) ''team_id''))]]"
  "timers (step_last runner name s) = timers s"
  "next_handle (step_last runner name s) = next_handle s"
  "heap (step_last runner name s) = heap s"
  "world (step_last runner name s) = world s"
  by (simp_all add: step_last_def statsd_increment_def emit_def)

lemma closing_emitted_append:
  "closing_emitted (xs @ ys) = closing_emitted xs @ closing_emitted ys"
  by (simp add: closing_emitted_def)

lemma guard_effects_quiet:
  "dlq_submissions (guard_effects runner name as h) = []"
  "closing_emitted (guard_effects runner name as h) = []"
  by (simp_all add: guard_effects_def closing_emitted_def)

lemma reaches_frame:
  "reaches impls runner c c' \<Longrightarrow>
   dlq_submissions (effects (snd (snd c'))) = dlq_submissions (effects (snd (snd c))) \<and>
   closing_emitted (effects (snd (snd c'))) = closing_emitted (effects (snd (snd c))) \<and>
   set (timers (snd (snd c'))) \<subseteq> set (timers (snd (snd c)))"
proof (induction rule: reaches.induct)
  case (reaches_here c)
  show ?case by simp
next
  case (reaches_next name as s name' as' s1 c)
  note f = await_runStep_frame[OF reaches_next.hyps(1)]
  have "dlq_submissions (effects (step_done name s1)) = dlq_submissions (effects s)"
    by (simp add: step_done_frame f dlq_submissions_append guard_effects_quiet)
  moreover have "closing_emitted (effects (step_done name s1)) = closing_emitted (effects s)"
    by (simp add: step_done_frame f closing_emitted_append guard_effects_quiet)
       (simp add: closing_emitted_def closing_counters_def)
  moreover have "set (timers (step_done name s1)) \<subseteq> set (timers s)"
    by (auto simp: step_done_frame f)
  ultimately show ?case using reaches_next.IH by auto
qed

subsection \<open>The error handler\<close>

lemma serialize_heap: "heap s = heap s' \<Longrightarrow> serialize s arg = serialize s' arg"
  by (simp add: serialize_def split: jsval.splits)

lemma handleError_dependency_unavailable:
  "handleError runner (DependencyUnavailableError m) name as s =
     (Some (DependencyUnavailableError m),
      s\<lparr>effects := effects s @ error_report runner (DependencyUnavailableError m) name as s\<rparr>)"
  by (simp add: handleError_def error_report_def statsd_increment_def emit_def Let_def)

lemma handleError_not_dead_lettered:
  assumes "\<not> instanceofDependencyUnavailableError err"
      and "name \<notin> set STEPS_TO_EMIT_TO_DLQ_ON_FAILURE"
  shows "handleError runner err name as s =
           (None, s\<lparr>effects := effects s @ error_report runner err name as s\<rparr>)"
  using assms
  by (simp add: handleError_def error_report_def statsd_increment_def emit_def Let_def)

lemma handleError_dead_lettered:
  assumes "\<not> instanceofDependencyUnavailableError err"
      and "name \<in> set STEPS_TO_EMIT_TO_DLQ_ON_FAILURE"
      and "queueMessage (hub runner) (generateEventDeadLetterQueueMessage (originalEvent runner) err) (world s) = (r, w)"
  shows "handleError runner err name as s =
           (None,
            s\<lparr>world := w,
              effects := effects s @ error_report runner err name as s
                @ [QueueMessage (generateEventDeadLetterQueueMessage (originalEvent runner) err)]
                @ (case r of
                     None \<Rightarrow> [StatsdIncrement ''events_added_to_dead_letter_queue'' []]
                   | Some dlqError \<Rightarrow>
                       [StatusInfo (LogDlqError dlqError),
                        SentryCaptureException dlqError
                          \<lparr>currentStepName = name, serializedArgs = map (serialize s) as,
                           extra_originalEvent = originalEvent runner, extra_err = Some err\<rparr>])\<rparr>)"
  using assms
  by (simp add: handleError_def error_report_def statsd_increment_def emit_def Let_def
      split: option.splits)

lemma error_report_quiet:
  "dlq_submissions (error_report runner err name as s) = []"
  "closing_emitted (error_report runner err name as s) = []"
  by (simp_all add: error_report_def closing_emitted_def closing_counters_def)

lemma registry_keys:
  "map_of (EVENT_PIPELINE_STEPS impls) l = None \<longleftrightarrow>
     l \<notin> set STEPS_TO_EMIT_TO_DLQ_ON_FAILURE \<and> l \<noteq> ''runAsyncHandlersStep''"
  by (simp add: EVENT_PIPELINE_STEPS_def STEPS_TO_EMIT_TO_DLQ_ON_FAILURE_def)

subsection \<open>The entry points and the trace of a whole run\<close>

lemma runVariant_seeded:
  "runVariant v impls runner event s = run_seeded v impls runner (entry v runner event s)"
proof (cases v)
  case LightweightCapture
  then show ?thesis
    by (simp add: runLightweightCaptureEndpointEventPipeline_def run_seeded_def Let_def
        split: option.splits prod.splits sum.splits)
next
  case LiveEvent
  then show ?thesis
    by (simp add: runEventPipeline_def run_seeded_def Let_def
        split: option.splits prod.splits sum.splits)
next
  case BufferedEvent
  then show ?thesis
    by (simp add: runBufferEventPipeline_def run_seeded_def new_LazyPersonContainer_def
        statsd_increment_def emit_def Let_def split: option.splits prod.splits sum.splits)
next
  case AsyncHandlers
  then show ?thesis
    by (simp add: runAsyncHandlersEventPipeline_def run_seeded_def new_LazyPersonContainer_def
        statsd_increment_def emit_def Let_def split: option.splits prod.splits sum.splits)
qed

lemma LazyPersonContainer_get_frame:
  "LazyPersonContainer_get h a s = (r, s') \<Longrightarrow>
     effects s' = effects s \<and> timers s' = timers s \<and> next_handle s' = next_handle s \<and>
     length (heap s') = length (heap s)"
  by (auto simp: LazyPersonContainer_get_def Let_def split: if_splits option.splits prod.splits sum.splits)

lemma entry_frame:
  "entry v runner event s = Seeded name as s1 tags \<Longrightarrow>
     dlq_submissions (effects s1) = dlq_submissions (effects s) \<and>
     closing_emitted (effects s1) = closing_emitted (effects s) \<and>
     timers s1 = timers s"
  "entry v runner event s = ThrownBeforeLoop err s' \<Longrightarrow>
     dlq_submissions (effects s') = dlq_submissions (effects s) \<and>
     closing_emitted (effects s') = closing_emitted (effects s) \<and>
     timers s' = timers s"
  by (cases v;
      auto simp: statsd_increment_def emit_def dlq_submissions_append closing_emitted_def
        closing_counters_def Let_def
        dest!: LazyPersonContainer_get_frame split: prod.splits sum.splits)+

lemma handleError_frame:
  "handleError runner err name as s = (t, s') \<Longrightarrow>
     closing_emitted (effects s') = closing_emitted (effects s) \<and> timers s' = timers s \<and>
     heap s' = heap s \<and> next_handle s' = next_handle s"
  by (auto simp: handleError_def statsd_increment_def emit_def closing_emitted_def
      closing_counters_def Let_def split: if_splits prod.splits option.splits)

lemma finish_frame:
  "finish impls runner name as st s1 = (out, s') \<Longrightarrow>
     closing_emitted (effects s') = closing_emitted (effects s1) \<and>
     set (timers s') \<subseteq> set (timers s1)"
proof (cases st)
  case FulfilledObjectString
  assume "finish impls runner name as st s1 = (out, s')"
  with FulfilledObjectString
  have s': "s' = snd (runStep impls runner ''['' [JStr ''o''] (step_done name s1))"
    by (simp add: finish_def)
  have "closing_emitted (effects s') = closing_emitted (effects s1)"
    unfolding s' runStep_effects
    by (simp add: closing_emitted_def closing_counters_def guard_effects_def step_done_frame)
  moreover have "set (timers s') \<subseteq> set (timers s1)"
    unfolding s' runStep_timers by (auto simp: step_done_frame)
  ultimately show ?thesis by simp
qed (auto simp: finish_def step_last_frame step_done_frame closing_emitted_def closing_counters_def
        Let_def dest!: handleError_frame split: prod.splits option.splits)

lemma runPipeline_frame:
  assumes "runPipeline impls runner name as s = Some (out, s')"
  shows "closing_emitted (effects s') = closing_emitted (effects s)"
    and "set (timers s') \<subseteq> set (timers s)"
proof -
  from runPipeline_returns[OF assms] obtain l as' s0 st s1 where
    r: "reaches impls runner (name, as, s) (l, as', s0)" and
    aw: "await_runStep impls runner l as' s0 = Some (st, s1)" and
    y: "(out, s') = finish impls runner l as' st s1"
    by blast
  note f0 = reaches_frame[OF r, simplified]
  note f1 = await_runStep_frame[OF aw]
  note f2 = finish_frame[OF y[symmetric]]
  show "closing_emitted (effects s') = closing_emitted (effects s)"
    using f0 f1 f2 by (simp add: closing_emitted_append guard_effects_quiet)
  show "set (timers s') \<subseteq> set (timers s)"
    using f0 f1 f2 by auto
qed

subsection \<open>Evaluating the samples\<close>

lemmas sample_defs = await_runStep_def runStep_def runInSpan_def timeoutGuard_def clearTimeout_def
  emit_def with_ext_def ext_of_def EVENT_PIPELINE_STEPS_def sample_impls_def continues_to_def
  returns_null_def rejects_with_def nextStep_def sample_runner_def sample_state_def step_done_def
  step_last_def statsd_increment_def statsd_timing_def serialize_def sample_hub_def Let_def
  sample_event_def

subsection \<open>Termination on null\<close>

text \<open>
  C1. The loop returns a result without an error field exactly when the chain of steps
  started at \<open>name\<close> reaches, after finitely many continuations, a step that returns null:
  then \<open>lastStep\<close> is the name of that step and \<open>args\<close> are its serialized arguments. More
  generally the loop leaves (returns or throws) exactly when the chain reaches a step
  that returns null or fails; in a chain where no step fails, that is exactly when a step
  returns null.
\<close>

theorem runPipeline_terminal:
  "((runPipeline impls runner name as s = Some (Inr \<lparr>lastStep = l, args = sa, error = None\<rparr>, s')) =
    (\<exists>as' s0 s1. reaches impls runner (name, as, s) (l, as', s0) \<and>
        await_runStep impls runner l as' s0 = Some (Fulfilled None, s1) \<and>
        s' = step_last runner l (step_done l s1) \<and> sa = map (serialize s') as')) \<and>
   ((\<exists>y. runPipeline impls runner name as s = Some y) =
    (\<exists>l' as' s0 st s1. reaches impls runner (name, as, s) (l', as', s0) \<and>
        await_runStep impls runner l' as' s0 = Some (st, s1) \<and> stops st))"
proof (intro conjI iffI)
  assume "runPipeline impls runner name as s = Some (Inr \<lparr>lastStep = l, args = sa, error = None\<rparr>, s')"
  from runPipeline_returns[OF this] obtain l' as' s0 st s1 where
    r: "reaches impls runner (name, as, s) (l', as', s0)" and
    aw: "await_runStep impls runner l' as' s0 = Some (st, s1)" and
    st: "stops st" and
    y: "(Inr \<lparr>lastStep = l, args = sa, error = None\<rparr>, s') = finish impls runner l' as' st s1"
    by blast
  from y st have "st = Fulfilled None \<and> l' = l \<and> s' = step_last runner l (step_done l s1)
      \<and> sa = map (serialize s') as'"
    by (cases st rule: stops.cases)
       (auto simp: finish_def Let_def split: prod.splits option.splits)
  with r aw show "\<exists>as' s0 s1. reaches impls runner (name, as, s) (l, as', s0) \<and>
        await_runStep impls runner l as' s0 = Some (Fulfilled None, s1) \<and>
        s' = step_last runner l (step_done l s1) \<and> sa = map (serialize s') as'"
    by blast
next
  assume "\<exists>as' s0 s1. reaches impls runner (name, as, s) (l, as', s0) \<and>
        await_runStep impls runner l as' s0 = Some (Fulfilled None, s1) \<and>
        s' = step_last runner l (step_done l s1) \<and> sa = map (serialize s') as'"
  then obtain as' s0 s1 where
    r: "reaches impls runner (name, as, s) (l, as', s0)" and
    aw: "await_runStep impls runner l as' s0 = Some (Fulfilled None, s1)" and
    e: "s' = step_last runner l (step_done l s1)" "sa = map (serialize s') as'"
    by blast
  have "runPipeline impls runner name as s = runPipeline impls runner l as' s0"
    using reaches_runPipeline[OF r] by simp
  also have "\<dots> = Some (finish impls runner l as' (Fulfilled None) s1)"
    using aw by (rule runPipeline_stops) simp
  finally show "runPipeline impls runner name as s = Some (Inr \<lparr>lastStep = l, args = sa, error = None\<rparr>, s')"
    using e by (simp add: finish_def Let_def)
next
  assume "\<exists>y. runPipeline impls runner name as s = Some y"
  then obtain y where "runPipeline impls runner name as s = Some y" ..
  from runPipeline_returns[OF this]
  show "\<exists>l' as' s0 st s1. reaches impls runner (name, as, s) (l', as', s0) \<and>
        await_runStep impls runner l' as' s0 = Some (st, s1) \<and> stops st"
    by blast
next
  assume "\<exists>l' as' s0 st s1. reaches impls runner (name, as, s) (l', as', s0) \<and>
        await_runStep impls runner l' as' s0 = Some (st, s1) \<and> stops st"
  then obtain l' as' s0 st s1 where
    r: "reaches impls runner (name, as, s) (l', as', s0)" and
    aw: "await_runStep impls runner l' as' s0 = Some (st, s1)" "stops st"
    by blast
  have "runPipeline impls runner name as s = runPipeline impls runner l' as' s0"
    using reaches_runPipeline[OF r] by simp
  also have "\<dots> = Some (finish impls runner l' as' st s1)"
    using aw by (rule runPipeline_stops)
  finally show "\<exists>y. runPipeline impls runner name as s = Some y" by blast
qed

text \<open>The chain \<^verbatim>\<open>prepareEventStep\<close>, \<^verbatim>\<open>createEventStep\<close>, null.\<close>

theorem runPipeline_terminal_witness:
  "map_option fst
     (runPipeline (sample_impls returns_null returns_null) (sample_runner True)
        ''prepareEventStep'' [sample_event] sample_state) =
   Some (Inr \<lparr>lastStep = ''createEventStep'', args = [sample_event], error = None\<rparr>)"
proof -
  let ?impls = "sample_impls returns_null returns_null"
  let ?runner = "sample_runner True"
  obtain s1 where a1: "await_runStep ?impls ?runner ''prepareEventStep'' [sample_event] sample_state
      = Some (Fulfilled (Some (''createEventStep'', [sample_event])), s1)"
    by (simp add: sample_defs)
  obtain s2 where a2: "await_runStep ?impls ?runner ''createEventStep'' [sample_event]
      (step_done ''prepareEventStep'' s1) = Some (Fulfilled None, s2)"
    by (simp add: sample_defs)
  have r: "reaches ?impls ?runner (''prepareEventStep'', [sample_event], sample_state)
      (''createEventStep'', [sample_event], step_done ''prepareEventStep'' s1)"
    using reaches_next[OF a1 reaches_here] .
  have "runPipeline ?impls ?runner ''prepareEventStep'' [sample_event] sample_state =
      Some (Inr \<lparr>lastStep = ''createEventStep'',
                 args = map (serialize (step_last ?runner ''createEventStep'' (step_done ''createEventStep'' s2)))
                          [sample_event],
                 error = None\<rparr>,
            step_last ?runner ''createEventStep'' (step_done ''createEventStep'' s2))"
    using runPipeline_terminal[THEN conjunct1, THEN iffD2] r a2 by blast
  then show ?thesis by (simp add: serialize_def sample_event_def)
qed

subsection \<open>Dependency unavailable\<close>



subsection \<open>Dead-lettered failures\<close>

text \<open>
  C3. When a step of the dead-letterable list fails with an error that is not a
  \<^verbatim>\<open>DependencyUnavailableError\<close>, the run hands exactly one message to the Kafka producer:
  the envelope built from the runner's \<^verbatim>\<open>originalEvent\<close> and the error (the current
  arguments do not enter it). The world after the run is the one that call of
  \<^verbatim>\<open>queueMessage\<close> on this envelope leaves, and the trace ends with the report of the error,
  the submission, and what follows from its outcome. \<^verbatim>\<open>runPipeline\<close> returns the result with
  the step's name, its serialized arguments and the error's message. The list holds every
  registered step except \<^verbatim>\<open>runAsyncHandlersStep\<close>.
\<close>

theorem step_failure_dead_lettered_once:
  assumes "reaches impls runner (name, as, s) (l, as', s0)"
      and "await_runStep impls runner l as' s0 = Some (Rejected err, s1)"
      and "\<not> instanceofDependencyUnavailableError err"
      and "l \<in> set STEPS_TO_EMIT_TO_DLQ_ON_FAILURE"
  shows "(\<exists>s'. runPipeline impls runner name as s =
                 Some (Inr \<lparr>lastStep = l, args = map (serialize s1) as',
                            error = Some (message err)\<rparr>, s') \<and>
              world s' =
                snd (queueMessage (hub runner)
                       (generateEventDeadLetterQueueMessage (originalEvent runner) err) (world s1)) \<and>
              effects s' =
                effects s1 @ error_report runner err l as' s1
                  @ [QueueMessage (generateEventDeadLetterQueueMessage (originalEvent runner) err)]
                  @ (case fst (queueMessage (hub runner)
                                 (generateEventDeadLetterQueueMessage (originalEvent runner) err)
                                 (world s1)) of
                       None \<Rightarrow> [StatsdIncrement ''events_added_to_dead_letter_queue'' []]
                     | Some dlqError \<Rightarrow>
                         [StatusInfo (LogDlqError dlqError),
                          SentryCaptureException dlqError
                            \<lparr>currentStepName = l, serializedArgs = map (serialize s1) as',
                             extra_originalEvent = originalEvent runner,
                             extra_err = Some err\<rparr>]) \<and>
              heap s' = heap s1 \<and>
              dlq_submissions (effects s') =
                dlq_submissions (effects s)
                  @ [generateEventDeadLetterQueueMessage (originalEvent runner) err]) \<and>
         envelope_event (generateEventDeadLetterQueueMessage (originalEvent runner) err)
           = originalEvent runner \<and>
         set STEPS_TO_EMIT_TO_DLQ_ON_FAILURE =
           fst ` set (EVENT_PIPELINE_STEPS impls) - {''runAsyncHandlersStep''}"
proof -
  let ?msg = "generateEventDeadLetterQueueMessage (originalEvent runner) err"
  obtain r w where q: "queueMessage (hub runner) ?msg (world s1) = (r, w)"
    by (cases "queueMessage (hub runner) ?msg (world s1)")
  let ?tail = "case r of
      None \<Rightarrow> [StatsdIncrement ''events_added_to_dead_letter_queue'' []]
    | Some dlqError \<Rightarrow>
        [StatusInfo (LogDlqError dlqError),
         SentryCaptureException dlqError
           \<lparr>currentStepName = l, serializedArgs = map (serialize s1) as',
            extra_originalEvent = originalEvent runner, extra_err = Some err\<rparr>]"
  let ?s' = "s1\<lparr>world := w,
      effects := effects s1 @ error_report runner err l as' s1 @ [QueueMessage ?msg] @ ?tail\<rparr>"
  have "runPipeline impls runner name as s = runPipeline impls runner l as' s0"
    using reaches_runPipeline[OF assms(1)] by simp
  also have "\<dots> = Some (finish impls runner l as' (Rejected err) s1)"
    using assms(2) by (rule runPipeline_stops) simp
  also have "finish impls runner l as' (Rejected err) s1 =
      (Inr \<lparr>lastStep = l, args = map (serialize ?s') as', error = Some (message err)\<rparr>, ?s')"
    by (simp add: finish_def handleError_dead_lettered[OF assms(3,4) q])
  also have "map (serialize ?s') as' = map (serialize s1) as'"
    by (rule map_cong[OF refl]) (rule serialize_heap, simp)
  finally have run: "runPipeline impls runner name as s =
      Some (Inr \<lparr>lastStep = l, args = map (serialize s1) as', error = Some (message err)\<rparr>, ?s')" .
  have "dlq_submissions ?tail = []" by (cases r) simp_all
  moreover have "dlq_submissions (effects s0) = dlq_submissions (effects s)"
    using reaches_frame[OF assms(1)] by simp
  ultimately have dlq: "dlq_submissions (effects ?s') = dlq_submissions (effects s) @ [?msg]"
    using await_runStep_frame(1)[OF assms(2)]
    by (simp add: dlq_submissions_append guard_effects_quiet error_report_quiet)
  have "\<exists>s'. runPipeline impls runner name as s =
                 Some (Inr \<lparr>lastStep = l, args = map (serialize s1) as',
                            error = Some (message err)\<rparr>, s') \<and>
              world s' = snd (queueMessage (hub runner) ?msg (world s1)) \<and>
              effects s' =
                effects s1 @ error_report runner err l as' s1 @ [QueueMessage ?msg]
                  @ (case fst (queueMessage (hub runner) ?msg (world s1)) of
                       None \<Rightarrow> [StatsdIncrement ''events_added_to_dead_letter_queue'' []]
                     | Some dlqError \<Rightarrow>
                         [StatusInfo (LogDlqError dlqError),
                          SentryCaptureException dlqError
                            \<lparr>currentStepName = l, serializedArgs = map (serialize s1) as',
                             extra_originalEvent = originalEvent runner,
                             extra_err = Some err\<rparr>]) \<and>
              heap s' = heap s1 \<and>
              dlq_submissions (effects s') = dlq_submissions (effects s) @ [?msg]"
    using run dlq q by (intro exI[of _ ?s']) simp
  moreover have "envelope_event ?msg = originalEvent runner"
    by (simp add: generateEventDeadLetterQueueMessage_def)
  moreover have "set STEPS_TO_EMIT_TO_DLQ_ON_FAILURE =
      fst ` set (EVENT_PIPELINE_STEPS impls) - {''runAsyncHandlersStep''}"
    by (auto simp: STEPS_TO_EMIT_TO_DLQ_ON_FAILURE_def EVENT_PIPELINE_STEPS_def)
  ultimately show ?thesis by blast
qed

text \<open>
  \<^verbatim>\<open>createEventStep\<close> fails after \<^verbatim>\<open>prepareEventStep\<close>, on arguments that differ from the
  original event; the sample producer counts the messages it has delivered.
\<close>

theorem step_failure_dead_lettered_once_witness:
  "map_option (\<lambda>(out, s'). (out, world s', drop 11 (effects s')))
     (runPipeline (sample_impls (rejects_with (JsError ''insert failed'')) returns_null)
        (sample_runner True) ''prepareEventStep'' [sample_changed_event] sample_state) =
   Some (Inr \<lparr>lastStep = ''createEventStep'', args = [sample_changed_event],
              error = Some ''insert failed''\<rparr>,
         1,
         [QueueMessage \<lparr>envelope_event = sample_event, envelope_error = JsError ''insert failed''\<rparr>,
          StatsdIncrement ''events_added_to_dead_letter_queue'' []])"
proof -
  let ?impls = "sample_impls (rejects_with (JsError ''insert failed'')) returns_null :: nat step_impls"
  let ?runner = "sample_runner True"
  obtain s1 where a1: "await_runStep ?impls ?runner ''prepareEventStep'' [sample_changed_event]
      sample_state = Some (Fulfilled (Some (''createEventStep'', [sample_changed_event])), s1)"
    and w1: "world s1 = 0" and e1: "length (effects s1) = 3"
    by (simp add: sample_defs)
  obtain s2 where a2: "await_runStep ?impls ?runner ''createEventStep'' [sample_changed_event]
      (step_done ''prepareEventStep'' s1) = Some (Rejected (JsError ''insert failed''), s2)"
    and w2: "world s2 = world s1" and e2: "length (effects s2) = length (effects s1) + 5"
    by (simp add: sample_defs)
  have r: "reaches ?impls ?runner (''prepareEventStep'', [sample_changed_event], sample_state)
      (''createEventStep'', [sample_changed_event], step_done ''prepareEventStep'' s1)"
    using reaches_next[OF a1 reaches_here] .
  have n: "\<not> instanceofDependencyUnavailableError (JsError ''insert failed'')" by simp
  have m: "''createEventStep'' \<in> set STEPS_TO_EMIT_TO_DLQ_ON_FAILURE"
    by (simp add: STEPS_TO_EMIT_TO_DLQ_ON_FAILURE_def)
  from step_failure_dead_lettered_once[OF r a2 n m, THEN conjunct1]
  obtain s' where "runPipeline ?impls ?runner ''prepareEventStep'' [sample_changed_event] sample_state =
      Some (Inr \<lparr>lastStep = ''createEventStep'', args = map (serialize s2) [sample_changed_event],
                 error = Some (message (JsError ''insert failed''))\<rparr>, s')"
    and "world s' = snd (queueMessage (hub ?runner)
           (generateEventDeadLetterQueueMessage (originalEvent ?runner) (JsError ''insert failed''))
           (world s2))"
    and "effects s' = effects s2
           @ error_report ?runner (JsError ''insert failed'') ''createEventStep''
               [sample_changed_event] s2
           @ [QueueMessage (generateEventDeadLetterQueueMessage (originalEvent ?runner)
                (JsError ''insert failed''))]
           @ (case fst (queueMessage (hub ?runner)
                   (generateEventDeadLetterQueueMessage (originalEvent ?runner)
                      (JsError ''insert failed'')) (world s2)) of
                None \<Rightarrow> [StatsdIncrement ''events_added_to_dead_letter_queue'' []]
              | Some dlqError \<Rightarrow>
                  [StatusInfo (LogDlqError dlqError),
                   SentryCaptureException dlqError
                     \<lparr>currentStepName = ''createEventStep'',
                      serializedArgs = map (serialize s2) [sample_changed_event],
                      extra_originalEvent = originalEvent ?runner,
                      extra_err = Some (JsError ''insert failed'')\<rparr>])"
    by blast
  then show ?thesis using w1 w2 e1 e2
    by (simp add: serialize_def sample_changed_event_def error_report_def
        generateEventDeadLetterQueueMessage_def sample_runner_def sample_hub_def)
qed

subsection \<open>Failures of the async handlers\<close>



subsection \<open>A failing dead-letter submission\<close>

text \<open>
  C7. When the submission to the dead-letter queue itself fails while a step error is
  handled, the runner logs the secondary error and reports it to Sentry (with the primary
  error attached), emits no success counter, does not throw it, and \<^verbatim>\<open>runPipeline\<close> still
  returns the result carrying the message of the primary error.
\<close>

theorem dlq_failure_swallowed:
  assumes "reaches impls runner (name, as, s) (l, as', s0)"
      and "await_runStep impls runner l as' s0 = Some (Rejected err, s1)"
      and "\<not> instanceofDependencyUnavailableError err"
      and "l \<in> set STEPS_TO_EMIT_TO_DLQ_ON_FAILURE"
      and "queueMessage (hub runner) (generateEventDeadLetterQueueMessage (originalEvent runner) err)
             (world s1) = (Some dlqError, w)"
  shows "runPipeline impls runner name as s =
           Some (Inr \<lparr>lastStep = l, args = map (serialize s1) as', error = Some (message err)\<rparr>,
                 s1\<lparr>world := w,
                    effects := effects s1 @ error_report runner err l as' s1
                      @ [QueueMessage (generateEventDeadLetterQueueMessage (originalEvent runner) err),
                         StatusInfo (LogDlqError dlqError),
                         SentryCaptureException dlqError
                           \<lparr>currentStepName = l, serializedArgs = map (serialize s1) as',
                            extra_originalEvent = originalEvent runner,
                            extra_err = Some err\<rparr>]\<rparr>)"
proof -
  let ?msg = "generateEventDeadLetterQueueMessage (originalEvent runner) err"
  let ?s' = "s1\<lparr>world := w,
      effects := effects s1 @ error_report runner err l as' s1
        @ [QueueMessage ?msg, StatusInfo (LogDlqError dlqError),
           SentryCaptureException dlqError
             \<lparr>currentStepName = l, serializedArgs = map (serialize s1) as',
              extra_originalEvent = originalEvent runner, extra_err = Some err\<rparr>]\<rparr>"
  have "runPipeline impls runner name as s = runPipeline impls runner l as' s0"
    using reaches_runPipeline[OF assms(1)] by simp
  also have "\<dots> = Some (finish impls runner l as' (Rejected err) s1)"
    using assms(2) by (rule runPipeline_stops) simp
  also have "finish impls runner l as' (Rejected err) s1 =
      (Inr \<lparr>lastStep = l, args = map (serialize ?s') as', error = Some (message err)\<rparr>, ?s')"
    by (simp add: finish_def handleError_dead_lettered[OF assms(3,4,5)])
  also have "map (serialize ?s') as' = map (serialize s1) as'"
    by (rule map_cong[OF refl]) (rule serialize_heap, simp)
  finally show ?thesis .
qed

text \<open>\<^verbatim>\<open>createEventStep\<close> fails while Kafka is down.\<close>

theorem dlq_failure_swallowed_witness:
  "map_option (\<lambda>(out, s'). (out, drop 6 (effects s')))
     (runPipeline (sample_impls (rejects_with (JsError ''insert failed'')) returns_null)
        (sample_runner False) ''createEventStep'' [sample_changed_event] sample_state) =
   Some (Inr \<lparr>lastStep = ''createEventStep'', args = [sample_changed_event],
              error = Some ''insert failed''\<rparr>,
         [QueueMessage \<lparr>envelope_event = sample_event, envelope_error = JsError ''insert failed''\<rparr>,
          StatusInfo (LogDlqError (JsError ''kafka is down'')),
          SentryCaptureException (JsError ''kafka is down'')
            \<lparr>currentStepName = ''createEventStep'', serializedArgs = [sample_changed_event],
             extra_originalEvent = sample_event, extra_err = Some (JsError ''insert failed'')\<rparr>])"
proof -
  let ?impls = "sample_impls (rejects_with (JsError ''insert failed'')) returns_null"
  let ?runner = "sample_runner False"
  obtain s1 where a: "await_runStep ?impls ?runner ''createEventStep'' [sample_changed_event]
      sample_state = Some (Rejected (JsError ''insert failed''), s1)"
    and w: "world s1 = 0" and e: "length (effects s1) = 3" and h: "heap s1 = []"
    by (simp add: sample_defs)
  have n: "\<not> instanceofDependencyUnavailableError (JsError ''insert failed'')" by simp
  have m: "''createEventStep'' \<in> set STEPS_TO_EMIT_TO_DLQ_ON_FAILURE"
    by (simp add: STEPS_TO_EMIT_TO_DLQ_ON_FAILURE_def)
  have q: "queueMessage (hub ?runner)
      (generateEventDeadLetterQueueMessage (originalEvent ?runner) (JsError ''insert failed''))
      (world s1) = (Some (JsError ''kafka is down''), 0)"
    using w by (simp add: sample_runner_def sample_hub_def)
  show ?thesis
    using dlq_failure_swallowed[OF reaches_here a n m q] e h
    by (simp add: error_report_def serialize_def sample_changed_event_def sample_runner_def
        generateEventDeadLetterQueueMessage_def)
qed

subsection \<open>Unregistered step names\<close>

lemma inherited_member_None:
  "l \<notin> set Object_prototype_names \<Longrightarrow> inherited_member l = None"
  by (simp add: Object_prototype_names_def inherited_member_def)

lemma await_runStep_unregistered:
  fixes impls :: "'w step_impls"
  assumes "map_of (EVENT_PIPELINE_STEPS impls) l = None"
      and "l \<notin> set Object_prototype_names"
  shows "await_runStep impls runner l as s =
           Some (Rejected not_a_function,
                 s\<lparr>effects := effects s @ guard_effects runner l as (next_handle s),
                   timers := filter (\<lambda>t. fst t \<noteq> next_handle s) (timers s),
                   next_handle := Suc (next_handle s)\<rparr>)"
proof -
  have "(inherited_member l :: 'w called option) = None"
    using assms(2) by (rule inherited_member_None)
  with assms(1) show ?thesis
    by (simp add: await_runStep_def runStep_def runInSpan_def timeoutGuard_def clearTimeout_def
        emit_def guard_effects_def Let_def)
qed

text \<open>
  C6, as the claim states it, fails: the name \<^verbatim>\<open>exportEventsStep\<close> is not in the registry,
  and the loop started at it returns a result; nothing is thrown to the caller.
\<close>

theorem unregistered_step_counterexample:
  "map_of (EVENT_PIPELINE_STEPS (sample_impls returns_null returns_null)) ''exportEventsStep'' = None \<and>
   map_option fst
     (runPipeline (sample_impls returns_null returns_null) (sample_runner True)
        ''exportEventsStep'' [sample_event] sample_state) =
   Some (Inr \<lparr>lastStep = ''exportEventsStep'', args = [sample_event],
              error = Some ''EVENT_PIPELINE_STEPS[name] is not a function''\<rparr>)"
proof
  show "map_of (EVENT_PIPELINE_STEPS (sample_impls returns_null returns_null)) ''exportEventsStep'' = None"
    by (simp add: EVENT_PIPELINE_STEPS_def)
  show "map_option fst
     (runPipeline (sample_impls returns_null returns_null) (sample_runner True)
        ''exportEventsStep'' [sample_event] sample_state) =
   Some (Inr \<lparr>lastStep = ''exportEventsStep'', args = [sample_event],
              error = Some ''EVENT_PIPELINE_STEPS[name] is not a function''\<rparr>)"
    by (subst runPipeline.simps)
       (simp add: sample_defs handleError_def not_a_function_def inherited_member_def
          STEPS_TO_EMIT_TO_DLQ_ON_FAILURE_def)
qed

text \<open>
  The names the registry object inherits are not in the registry either, and each goes
  its own way: \<^verbatim>\<open>hasOwnProperty\<close> returns false, which the loop takes for the end of the
  chain, so a result without error is returned; \<^verbatim>\<open>constructor\<close> returns an object, whose
  destructuring fails and is handled like a step error; \<^verbatim>\<open>toString\<close> returns a string,
  after which \<^verbatim>\<open>handleError\<close> itself fails and the error is thrown to the caller.
\<close>

lemma inherited_names_run:
  "map_option fst
     (runPipeline (sample_impls returns_null returns_null) (sample_runner True)
        ''hasOwnProperty'' [sample_event] sample_state) =
   Some (Inr \<lparr>lastStep = ''hasOwnProperty'', args = [sample_event], error = None\<rparr>)"
  "map_option fst
     (runPipeline (sample_impls returns_null returns_null) (sample_runner True)
        ''constructor'' [sample_event] sample_state) =
   Some (Inr \<lparr>lastStep = ''constructor'', args = [sample_event],
              error = Some ''stepResult is not iterable''\<rparr>)"
  "map_option fst
     (runPipeline (sample_impls returns_null returns_null) (sample_runner True)
        ''toString'' [sample_event] sample_state) =
   Some (Inl (JsError ''currentArgs.map is not a function''))"
  by (subst runPipeline.simps,
      simp add: sample_defs handleError_def not_iterable_def map_not_a_function_def
        inherited_member_def STEPS_TO_EMIT_TO_DLQ_ON_FAILURE_def)+

text \<open>
  C6, amended. A step name for which the registry object has no property, neither one of
  its seven keys nor a member inherited from \<^verbatim>\<open>Object.prototype\<close>, is not executed: the
  call fails with a TypeError before any step function runs, so the world and the
  containers are untouched. The error is then handled like the failure of a step outside
  the dead-letterable list: it is logged, reported to Sentry and counted, no dead-letter
  submission is made, and \<^verbatim>\<open>runPipeline\<close> returns the result with the unregistered name,
  the serialized arguments and the TypeError's message. It is not thrown to the caller.
\<close>

theorem unregistered_step_returns_failed:
  assumes "reaches impls runner (name, as, s) (l, as', s0)"
      and "map_of (EVENT_PIPELINE_STEPS impls) l = None"
      and "l \<notin> set Object_prototype_names"
  shows "\<exists>s'. runPipeline impls runner name as s =
                Some (Inr \<lparr>lastStep = l, args = map (serialize s0) as',
                           error = Some (message not_a_function)\<rparr>, s') \<and>
              world s' = world s0 \<and> heap s' = heap s0 \<and>
              effects s' = effects s0 @ guard_effects runner l as' (next_handle s0)
                 @ [StatusInfo (LogError not_a_function),
                    SentryCaptureException not_a_function
                      \<lparr>currentStepName = l, serializedArgs = map (serialize s0) as',
                       extra_originalEvent = originalEvent runner, extra_err = None\<rparr>,
                    StatsdIncrement ''kafka_queue.event_pipeline.step.error'' [(''step'', TStr l)]] \<and>
              dlq_submissions (effects s') = dlq_submissions (effects s)"
proof -
  let ?s1 = "s0\<lparr>effects := effects s0 @ guard_effects runner l as' (next_handle s0),
                timers := filter (\<lambda>t. fst t \<noteq> next_handle s0) (timers s0),
                next_handle := Suc (next_handle s0)\<rparr>"
  let ?s' = "?s1\<lparr>effects := effects ?s1 @ error_report runner not_a_function l as' ?s1\<rparr>"
  have aw: "await_runStep impls runner l as' s0 = Some (Rejected not_a_function, ?s1)"
    using assms(2,3) by (rule await_runStep_unregistered)
  have nd: "l \<notin> set STEPS_TO_EMIT_TO_DLQ_ON_FAILURE"
    using assms(2) by (simp add: registry_keys)
  have ni: "\<not> instanceofDependencyUnavailableError not_a_function"
    by (simp add: not_a_function_def)
  have ser: "map (serialize ?s') as' = map (serialize s0) as'"
      "map (serialize ?s1) as' = map (serialize s0) as'"
    by (rule map_cong[OF refl], rule serialize_heap, simp)+
  have "runPipeline impls runner name as s = runPipeline impls runner l as' s0"
    using reaches_runPipeline[OF assms(1)] by simp
  also have "\<dots> = Some (finish impls runner l as' (Rejected not_a_function) ?s1)"
    using aw by (rule runPipeline_stops) simp
  also have "finish impls runner l as' (Rejected not_a_function) ?s1 =
      (Inr \<lparr>lastStep = l, args = map (serialize ?s') as', error = Some (message not_a_function)\<rparr>, ?s')"
    by (simp add: finish_def handleError_not_dead_lettered[OF ni nd])
  finally have run: "runPipeline impls runner name as s =
      Some (Inr \<lparr>lastStep = l, args = map (serialize s0) as',
                 error = Some (message not_a_function)\<rparr>, ?s')"
    by (simp only: ser)
  have "dlq_submissions (effects s0) = dlq_submissions (effects s)"
    using reaches_frame[OF assms(1)] by simp
  then have "dlq_submissions (effects ?s') = dlq_submissions (effects s)"
    by (simp add: dlq_submissions_append guard_effects_quiet error_report_quiet)
  moreover have "effects ?s' = effects s0 @ guard_effects runner l as' (next_handle s0)
                 @ [StatusInfo (LogError not_a_function),
                    SentryCaptureException not_a_function
                      \<lparr>currentStepName = l, serializedArgs = map (serialize s0) as',
                       extra_originalEvent = originalEvent runner, extra_err = None\<rparr>,
                    StatsdIncrement ''kafka_queue.event_pipeline.step.error'' [(''step'', TStr l)]]"
    using ser(2) by (simp add: error_report_def)
  ultimately show ?thesis using run by (intro exI[of _ ?s']) simp
qed

text \<open>\<^verbatim>\<open>createEventStep\<close> returns a continuation that names a step outside the registry.\<close>

theorem unregistered_step_returns_failed_witness:
  "map_option (\<lambda>(out, s'). (out, world s', dlq_submissions (effects s')))
     (runPipeline (sample_impls (continues_to ''exportEventsStep'') returns_null) (sample_runner True)
        ''createEventStep'' [sample_event] sample_state) =
   Some (Inr \<lparr>lastStep = ''exportEventsStep'', args = [sample_event],
              error = Some ''EVENT_PIPELINE_STEPS[name] is not a function''\<rparr>, 0, [])"
proof -
  let ?impls = "sample_impls (continues_to ''exportEventsStep'') returns_null :: nat step_impls"
  let ?runner = "sample_runner True"
  obtain s1 where a1: "await_runStep ?impls ?runner ''createEventStep'' [sample_event] sample_state
      = Some (Fulfilled (Some (''exportEventsStep'', [sample_event])), s1)"
    and w: "world s1 = 0"
    by (simp add: sample_defs)
  have r: "reaches ?impls ?runner (''createEventStep'', [sample_event], sample_state)
      (''exportEventsStep'', [sample_event], step_done ''createEventStep'' s1)"
    using reaches_next[OF a1 reaches_here] .
  have u: "map_of (EVENT_PIPELINE_STEPS ?impls) ''exportEventsStep'' = None"
    by (simp add: EVENT_PIPELINE_STEPS_def)
  have v: "''exportEventsStep'' \<notin> set Object_prototype_names"
    by (simp add: Object_prototype_names_def)
  from unregistered_step_returns_failed[OF r u v]
  obtain s' where "runPipeline ?impls ?runner ''createEventStep'' [sample_event] sample_state =
      Some (Inr \<lparr>lastStep = ''exportEventsStep'',
                 args = map (serialize (step_done ''createEventStep'' s1)) [sample_event],
                 error = Some (message not_a_function)\<rparr>, s')"
    and "world s' = world (step_done ''createEventStep'' s1)"
    and "dlq_submissions (effects s') = dlq_submissions (effects sample_state)"
    by blast
  then show ?thesis using w
    by (simp add: step_done_frame serialize_def sample_event_def not_a_function_def sample_state_def)
qed

subsection \<open>The timeout guard around each step\<close>

text \<open>
  What \<^verbatim>\<open>runStep\<close> does hold: the guard is set with the step name and the original event as
  context, the step function is called with that guard pending, and the guard is cleared
  after the call, whether the call returned or threw; the guard is not pending afterwards
  and no other timer is added.
\<close>

lemma runStep_calls_under_guard:
  assumes "map_of (EVENT_PIPELINE_STEPS impls) name = Some f"
  shows "fst (runStep impls runner name as s) =
           fst (f runner as
                  (timers s @
                     [(next_handle s, ''Event pipeline step stalled. Timeout warning after 30 sec!'',
                       \<lparr>guard_step = name, guard_event = originalEvent runner\<rparr>)])
                  (ext_of s))"
  using assms
  by (simp add: runStep_def runInSpan_def timeoutGuard_def clearTimeout_def emit_def ext_of_def
      Let_def split: prod.splits)

lemma runStep_releases_guard:
  "effects (snd (runStep impls runner name as s)) =
     effects s @
       [TimeoutGuard (next_handle s) ''Event pipeline step stalled. Timeout warning after 30 sec!''
          \<lparr>guard_step = name, guard_event = originalEvent runner\<rparr>,
        StepCalled name as,
        ClearTimeout (next_handle s)]"
  "next_handle s \<notin> fst ` set (timers (snd (runStep impls runner name as s)))"
  "set (timers (snd (runStep impls runner name as s))) \<subseteq> set (timers s)"
  by (auto simp: runStep_effects guard_effects_def runStep_timers)

text \<open>
  But the promise the call returned settles after that: \<^verbatim>\<open>runStep\<close> is not an async function
  and returns the promise without awaiting it, so the \<^verbatim>\<open>finally\<close> block has cleared the
  guard when \<^verbatim>\<open>runPipeline\<close> awaits the promise. The guard set for a step is never among the
  timers pending while the promise settles.
\<close>

lemma await_runStep_settles_unguarded:
  assumes "map_of (EVENT_PIPELINE_STEPS impls) name = Some f"
      and "runStep impls runner name as s = (Promise p, s1)"
  shows "await_runStep impls runner name as s =
           (case p (filter (\<lambda>t. fst t \<noteq> next_handle s) (timers s)) (ext_of s1) of
              None \<Rightarrow> None
            | Some (r, x) \<Rightarrow> Some (r, with_ext x s1))"
    and "next_handle s \<notin> fst ` set (filter (\<lambda>t. fst t \<noteq> next_handle s) (timers s))"
proof -
  have "timers s1 = filter (\<lambda>t. fst t \<noteq> next_handle s) (timers s)"
    using runStep_timers[of impls runner name as s] assms(2) by simp
  with assms(2) show "await_runStep impls runner name as s =
           (case p (filter (\<lambda>t. fst t \<noteq> next_handle s) (timers s)) (ext_of s1) of
              None \<Rightarrow> None
            | Some (r, x) \<Rightarrow> Some (r, with_ext x s1))"
    by (simp add: await_runStep_def)
  show "next_handle s \<notin> fst ` set (filter (\<lambda>t. fst t \<noteq> next_handle s) (timers s))"
    by auto
qed

text \<open>
  C9 is not met by the code. A step whose work is done when its promise settles, as that of
  every async step function is, does that work with no guard pending: on the sample below
  \<^verbatim>\<open>createEventStep\<close> sees its guard (handle 0) pending when it is called, and no timer
  pending when its promise settles. A step that stalls is therefore never reported, which
  is what the guard is set for.
\<close>

theorem step_settles_after_guard_cleared:
  "map_option (\<lambda>(st, s'). (st, world s'))
     (await_runStep (sample_impls watching_step returns_null) watching_runner
        ''createEventStep'' [sample_event] watching_state) =
   Some (Fulfilled None,
         [[(0, ''Event pipeline step stalled. Timeout warning after 30 sec!'',
            \<lparr>guard_step = ''createEventStep'', guard_event = sample_event\<rparr>)],
          []])"
  by (simp add: await_runStep_def runStep_def runInSpan_def timeoutGuard_def clearTimeout_def
      emit_def with_ext_def ext_of_def EVENT_PIPELINE_STEPS_def sample_impls_def watching_step_def
      watching_runner_def watching_state_def Let_def)

subsection \<open>Where each entry point starts\<close>

lemma LazyPersonContainer_get_heap:
  assumes "LazyPersonContainer_get h a s = (r, s')"
  shows "length (heap s') = length (heap s)"
    and "take a (heap s') = take a (heap s)"
    and "a < length (heap s) \<Longrightarrow> teamId (heap s' ! a) = teamId (heap s ! a) \<and>
           distinctId (heap s' ! a) = distinctId (heap s ! a)"
  using assms
  by (auto simp: LazyPersonContainer_get_def Let_def
      split: if_splits option.splits prod.splits sum.splits)

text \<open>
  C8. Each entry point emits its start counter and runs the shared loop (\<open>run_seeded\<close>:
  \<^verbatim>\<open>runPipeline\<close>, then the closing counter) from its own step and arguments: lightweight
  capture from \<^verbatim>\<open>populateTeamDataStep\<close> with the event alone, the event pipeline from
  \<^verbatim>\<open>emitToBufferStep\<close> with the event alone, the buffer pipeline from
  \<^verbatim>\<open>pluginsProcessEventStep\<close> with the event and a person container, the async handlers
  from \<^verbatim>\<open>runAsyncHandlersStep\<close> with the event and a person container. The container is
  newly allocated by the call: its address is the first one beyond the store the call
  found, the containers already in that store are unchanged, and it carries the team and
  distinct id of the event. The buffer pipeline resolves the person before the loop; if
  that lookup throws, the error leaves the method and the loop is not started.
\<close>

theorem entry_points_start:
  "runLightweightCaptureEndpointEventPipeline impls runner event s =
     run_seeded LightweightCapture impls runner
       (Seeded ''populateTeamDataStep'' [event]
          (statsd_increment ''kafka_queue.lightweight_capture_endpoint_event_pipeline.start''
             [(''pipeline'', TStr ''lightweight_capture'')] s) []) \<and>
   runEventPipeline impls runner event s =
     run_seeded LiveEvent impls runner
       (Seeded ''emitToBufferStep'' [event]
          (statsd_increment ''kafka_queue.event_pipeline.start'' [(''pipeline'', TStr ''event'')] s) []) \<and>
   (case LazyPersonContainer_get (hub runner) (length (heap s))
           ((statsd_increment ''kafka_queue.event_pipeline.start'' [(''pipeline'', TStr ''buffer'')] s)
              \<lparr>heap := heap s @ [\<lparr>teamId = get_prop event ''team_id'',
                                  distinctId = get_prop event ''distinct_id'',
                                  loaded = False, resolved = None\<rparr>]\<rparr>) of
      (Inl err, s3) \<Rightarrow> runBufferEventPipeline impls runner event s = Some (Inl err, s3)
    | (Inr person, s3) \<Rightarrow>
        runBufferEventPipeline impls runner event s =
          run_seeded BufferedEvent impls runner
            (Seeded ''pluginsProcessEventStep'' [event, JContainer (length (heap s))] s3
               [(''didPersonExistAtStart'', TString (JBool (truthy person)))]) \<and>
        length (heap s3) = Suc (length (heap s)) \<and>
        take (length (heap s)) (heap s3) = heap s \<and>
        teamId (heap s3 ! length (heap s)) = get_prop event ''team_id'' \<and>
        distinctId (heap s3 ! length (heap s)) = get_prop event ''distinct_id'') \<and>
   runAsyncHandlersEventPipeline impls runner event s =
     run_seeded AsyncHandlers impls runner
       (Seeded ''runAsyncHandlersStep'' [event, JContainer (length (heap s))]
          ((statsd_increment ''kafka_queue.event_pipeline.start''
              [(''pipeline'', TStr ''asyncHandlers'')] s)
             \<lparr>heap := heap s @ [\<lparr>teamId = get_prop event ''teamId'',
                                 distinctId = get_prop event ''distinctId'',
                                 loaded = False, resolved = None\<rparr>]\<rparr>) [])"
proof (intro conjI)
  show "runLightweightCaptureEndpointEventPipeline impls runner event s =
     run_seeded LightweightCapture impls runner
       (Seeded ''populateTeamDataStep'' [event]
          (statsd_increment ''kafka_queue.lightweight_capture_endpoint_event_pipeline.start''
             [(''pipeline'', TStr ''lightweight_capture'')] s) [])"
    using runVariant_seeded[of LightweightCapture impls runner event s] by simp
  show "runEventPipeline impls runner event s =
     run_seeded LiveEvent impls runner
       (Seeded ''emitToBufferStep'' [event]
          (statsd_increment ''kafka_queue.event_pipeline.start'' [(''pipeline'', TStr ''event'')] s) [])"
    using runVariant_seeded[of LiveEvent impls runner event s] by simp
  show "runAsyncHandlersEventPipeline impls runner event s =
     run_seeded AsyncHandlers impls runner
       (Seeded ''runAsyncHandlersStep'' [event, JContainer (length (heap s))]
          ((statsd_increment ''kafka_queue.event_pipeline.start''
              [(''pipeline'', TStr ''asyncHandlers'')] s)
             \<lparr>heap := heap s @ [\<lparr>teamId = get_prop event ''teamId'',
                                 distinctId = get_prop event ''distinctId'',
                                 loaded = False, resolved = None\<rparr>]\<rparr>) [])"
    using runVariant_seeded[of AsyncHandlers impls runner event s] by simp
next
  let ?c = "\<lparr>teamId = get_prop event ''team_id'', distinctId = get_prop event ''distinct_id'',
             loaded = False, resolved = None\<rparr>"
  let ?s2 = "(statsd_increment ''kafka_queue.event_pipeline.start'' [(''pipeline'', TStr ''buffer'')] s)
               \<lparr>heap := heap s @ [?c]\<rparr>"
  obtain r s3 where g: "LazyPersonContainer_get (hub runner) (length (heap s)) ?s2 = (r, s3)"
    by (cases "LazyPersonContainer_get (hub runner) (length (heap s)) ?s2")
  note gh = LazyPersonContainer_get_heap[OF g]
  have len: "length (heap s3) = Suc (length (heap s))" using gh(1) by simp
  have tk: "take (length (heap s)) (heap s3) = heap s" using gh(2) by simp
  have ids: "teamId (heap s3 ! length (heap s)) = get_prop event ''team_id''"
      "distinctId (heap s3 ! length (heap s)) = get_prop event ''distinct_id''"
    using gh(3) by simp_all
  show "case LazyPersonContainer_get (hub runner) (length (heap s)) ?s2 of
            (Inl err, s3) \<Rightarrow> runBufferEventPipeline impls runner event s = Some (Inl err, s3)
          | (Inr person, s3) \<Rightarrow>
              runBufferEventPipeline impls runner event s =
                run_seeded BufferedEvent impls runner
                  (Seeded ''pluginsProcessEventStep'' [event, JContainer (length (heap s))] s3
                     [(''didPersonExistAtStart'', TString (JBool (truthy person)))]) \<and>
              length (heap s3) = Suc (length (heap s)) \<and>
              take (length (heap s)) (heap s3) = heap s \<and>
              teamId (heap s3 ! length (heap s)) = get_prop event ''team_id'' \<and>
              distinctId (heap s3 ! length (heap s)) = get_prop event ''distinct_id''"
    using runVariant_seeded[of BufferedEvent impls runner event s] g len tk ids
    by (cases r) (simp_all add: run_seeded_def Let_def)
qed

subsection \<open>The closing counter\<close>

lemma runPipeline_rethrows:
  assumes "reaches impls runner (name, as, s) (l, as', s0)"
      and "await_runStep impls runner l as' s0 = Some (Rejected (DependencyUnavailableError m), s1)"
  shows "\<exists>s'. runPipeline impls runner name as s = Some (Inl (DependencyUnavailableError m), s')"
proof -
  have "runPipeline impls runner name as s = runPipeline impls runner l as' s0"
    using reaches_runPipeline[OF assms(1)] by simp
  also have "\<dots> = Some (finish impls runner l as' (Rejected (DependencyUnavailableError m)) s1)"
    using assms(2) by (rule runPipeline_stops) simp
  finally show ?thesis
    by (simp add: finish_def handleError_dependency_unavailable)
qed

lemma closing_name_closing: "is_closing (StatsdIncrement (closing_name v) tags)"
  by (cases v) (simp_all add: closing_counters_def)

text \<open>
  C10. For each of the four entry points, with the step, arguments and state its loop is
  started from (\<open>entry\<close>):
  \<^item> if the loop returns a result, the method returns that result and the trace has gained
    the closing counter of the method, once, as its last entry;
  \<^item> if the loop throws, the method throws the same error and the trace has gained no
    closing counter; so does an error thrown before the loop;
  \<^item> if the loop does not return, neither does the method;
  \<^item> hence a method that returns or throws has emitted its closing counter exactly if it
    returned a result, which it does exactly if its loop was started and returned one;
  \<^item> when a step of the loop fails with a \<^verbatim>\<open>DependencyUnavailableError\<close>, the method throws
    that error and no closing counter is emitted.
\<close>

theorem closing_counter_iff_result:
  "(\<forall>name as s1 tags result s2.
      entry v runner event s = Seeded name as s1 tags \<and>
      runPipeline impls runner name as s1 = Some (Inr result, s2) \<longrightarrow>
        runVariant v impls runner event s =
          Some (Inr result, statsd_increment (closing_name v) tags s2) \<and>
        closing_emitted (effects (statsd_increment (closing_name v) tags s2)) =
          closing_emitted (effects s) @ [StatsdIncrement (closing_name v) tags]) \<and>
   (\<forall>name as s1 tags err s2.
      entry v runner event s = Seeded name as s1 tags \<and>
      runPipeline impls runner name as s1 = Some (Inl err, s2) \<longrightarrow>
        runVariant v impls runner event s = Some (Inl err, s2) \<and>
        closing_emitted (effects s2) = closing_emitted (effects s)) \<and>
   (\<forall>err s'.
      entry v runner event s = ThrownBeforeLoop err s' \<longrightarrow>
        runVariant v impls runner event s = Some (Inl err, s') \<and>
        closing_emitted (effects s') = closing_emitted (effects s)) \<and>
   (\<forall>name as s1 tags.
      entry v runner event s = Seeded name as s1 tags \<and>
      runPipeline impls runner name as s1 = None \<longrightarrow>
        runVariant v impls runner event s = None) \<and>
   (\<forall>out s'.
      runVariant v impls runner event s = Some (out, s') \<longrightarrow>
        (case out of
           Inl err \<Rightarrow> closing_emitted (effects s') = closing_emitted (effects s)
         | Inr result \<Rightarrow>
             (\<exists>tags. closing_emitted (effects s') =
                closing_emitted (effects s) @ [StatsdIncrement (closing_name v) tags])) \<and>
        ((\<exists>result. out = Inr result) =
         (\<exists>name as s1 tags result s2. entry v runner event s = Seeded name as s1 tags \<and>
             runPipeline impls runner name as s1 = Some (Inr result, s2)))) \<and>
   (\<forall>name as s1 tags l as' s0 m s2.
      entry v runner event s = Seeded name as s1 tags \<and>
      reaches impls runner (name, as, s1) (l, as', s0) \<and>
      await_runStep impls runner l as' s0 = Some (Rejected (DependencyUnavailableError m), s2)
      \<longrightarrow> (\<exists>s'. runVariant v impls runner event s = Some (Inl (DependencyUnavailableError m), s') \<and>
                closing_emitted (effects s') = closing_emitted (effects s)))"
proof -
  have returned: "runVariant v impls runner event s =
          Some (Inr result, statsd_increment (closing_name v) tags s2) \<and>
        closing_emitted (effects (statsd_increment (closing_name v) tags s2)) =
          closing_emitted (effects s) @ [StatsdIncrement (closing_name v) tags]"
    if e: "entry v runner event s = Seeded name as s1 tags"
      and run: "runPipeline impls runner name as s1 = Some (Inr result, s2)"
    for name as s1 tags result s2
  proof -
    have "closing_emitted (effects s2) = closing_emitted (effects s)"
      using runPipeline_frame(1)[OF run] entry_frame(1)[OF e] by simp
    with closing_name_closing[of v tags]
    have "closing_emitted (effects (statsd_increment (closing_name v) tags s2)) =
        closing_emitted (effects s) @ [StatsdIncrement (closing_name v) tags]"
      by (simp add: statsd_increment_def emit_def closing_emitted_def)
    moreover have "runVariant v impls runner event s =
        Some (Inr result, statsd_increment (closing_name v) tags s2)"
      unfolding runVariant_seeded e run_seeded_def using run by simp
    ultimately show ?thesis by simp
  qed
  have thrown: "runVariant v impls runner event s = Some (Inl err, s2) \<and>
        closing_emitted (effects s2) = closing_emitted (effects s)"
    if e: "entry v runner event s = Seeded name as s1 tags"
      and run: "runPipeline impls runner name as s1 = Some (Inl err, s2)"
    for name as s1 tags err s2
  proof -
    have "closing_emitted (effects s2) = closing_emitted (effects s)"
      using runPipeline_frame(1)[OF run] entry_frame(1)[OF e] by simp
    moreover have "runVariant v impls runner event s = Some (Inl err, s2)"
      unfolding runVariant_seeded e run_seeded_def using run by simp
    ultimately show ?thesis by simp
  qed
  have before: "runVariant v impls runner event s = Some (Inl err, s') \<and>
        closing_emitted (effects s') = closing_emitted (effects s)"
    if e: "entry v runner event s = ThrownBeforeLoop err s'" for err s'
  proof -
    have "runVariant v impls runner event s = Some (Inl err, s')"
      unfolding runVariant_seeded e run_seeded_def by simp
    with entry_frame(2)[OF e] show ?thesis by simp
  qed
  have diverges: "runVariant v impls runner event s = None"
    if e: "entry v runner event s = Seeded name as s1 tags"
      and run: "runPipeline impls runner name as s1 = None"
    for name as s1 tags
    unfolding runVariant_seeded e run_seeded_def using run by simp
  have left: "(case out of
           Inl err \<Rightarrow> closing_emitted (effects s') = closing_emitted (effects s)
         | Inr result \<Rightarrow>
             (\<exists>tags. closing_emitted (effects s') =
                closing_emitted (effects s) @ [StatsdIncrement (closing_name v) tags])) \<and>
        ((\<exists>result. out = Inr result) =
         (\<exists>name as s1 tags result s2. entry v runner event s = Seeded name as s1 tags \<and>
             runPipeline impls runner name as s1 = Some (Inr result, s2)))"
    if rv: "runVariant v impls runner event s = Some (out, s')" for out s'
  proof (cases "entry v runner event s")
    case (ThrownBeforeLoop err st)
    with before[OF ThrownBeforeLoop] rv show ?thesis by auto
  next
    case (Seeded name as s1 tags)
    show ?thesis
    proof (cases "runPipeline impls runner name as s1")
      case None
      with diverges[OF Seeded] rv show ?thesis by simp
    next
      case (Some y)
      obtain out2 s2 where y: "y = (out2, s2)" by (cases y)
      show ?thesis
      proof (cases out2)
        case (Inl err)
        with thrown[OF Seeded] Some y rv Seeded show ?thesis by auto
      next
        case (Inr result)
        with returned[OF Seeded] Some y rv Seeded show ?thesis by auto
      qed
    qed
  qed
  have unavailable: "\<exists>s'. runVariant v impls runner event s =
        Some (Inl (DependencyUnavailableError m), s') \<and>
        closing_emitted (effects s') = closing_emitted (effects s)"
    if e: "entry v runner event s = Seeded name as s1 tags"
      and r: "reaches impls runner (name, as, s1) (l, as', s0)"
      and a: "await_runStep impls runner l as' s0 = Some (Rejected (DependencyUnavailableError m), s2)"
    for name as s1 tags l as' s0 m s2
  proof -
    from runPipeline_rethrows[OF r a] obtain s3 where
      "runPipeline impls runner name as s1 = Some (Inl (DependencyUnavailableError m), s3)" ..
    from thrown[OF e this] show ?thesis by blast
  qed
  show ?thesis
  proof (intro conjI allI impI; (elim conjE)?)
    fix name as s1 tags result s2
    assume "entry v runner event s = Seeded name as s1 tags"
      and "runPipeline impls runner name as s1 = Some (Inr result, s2)"
    from returned[OF this]
    show "runVariant v impls runner event s =
        Some (Inr result, statsd_increment (closing_name v) tags s2)"
      and "closing_emitted (effects (statsd_increment (closing_name v) tags s2)) =
        closing_emitted (effects s) @ [StatsdIncrement (closing_name v) tags]"
      by simp_all
  next
    fix name as s1 tags err s2
    assume "entry v runner event s = Seeded name as s1 tags"
      and "runPipeline impls runner name as s1 = Some (Inl err, s2)"
    from thrown[OF this]
    show "runVariant v impls runner event s = Some (Inl err, s2)"
      and "closing_emitted (effects s2) = closing_emitted (effects s)"
      by simp_all
  next
    fix err s'
    assume "entry v runner event s = ThrownBeforeLoop err s'"
    from before[OF this]
    show "runVariant v impls runner event s = Some (Inl err, s')"
      and "closing_emitted (effects s') = closing_emitted (effects s)"
      by simp_all
  next
    fix name as s1 tags
    assume "entry v runner event s = Seeded name as s1 tags"
      and "runPipeline impls runner name as s1 = None"
    then show "runVariant v impls runner event s = None" by (rule diverges)
  next
    fix out s'
    assume "runVariant v impls runner event s = Some (out, s')"
    from left[OF this]
    show "case out of
           Inl err \<Rightarrow> closing_emitted (effects s') = closing_emitted (effects s)
         | Inr result \<Rightarrow>
             (\<exists>tags. closing_emitted (effects s') =
                closing_emitted (effects s) @ [StatsdIncrement (closing_name v) tags])"
      and "(\<exists>result. out = Inr result) =
         (\<exists>name as s1 tags result s2. entry v runner event s = Seeded name as s1 tags \<and>
             runPipeline impls runner name as s1 = Some (Inr result, s2))"
      by simp_all
  next
    fix name as s1 tags l as' s0 m s2
    assume "entry v runner event s = Seeded name as s1 tags"
      and "reaches impls runner (name, as, s1) (l, as', s0)"
      and "await_runStep impls runner l as' s0 = Some (Rejected (DependencyUnavailableError m), s2)"
    then show "\<exists>s'. runVariant v impls runner event s =
        Some (Inl (DependencyUnavailableError m), s') \<and>
        closing_emitted (effects s') = closing_emitted (effects s)"
      by (rule unavailable)
  qed
qed

text \<open>
  The event pipeline on a chain whose fifth step finds the database unreachable, and on a
  chain that ends with null.
\<close>

theorem closing_counter_iff_result_witness:
  "map_option (\<lambda>(out, s'). (out, closing_emitted (effects s')))
     (runVariant LiveEvent
        (sample_impls (rejects_with (DependencyUnavailableError ''clickhouse unavailable'')) returns_null)
        (sample_runner True) sample_event sample_state) =
   Some (Inl (DependencyUnavailableError ''clickhouse unavailable''), []) \<and>
   map_option (\<lambda>(out, s'). (out, closing_emitted (effects s')))
     (runVariant LiveEvent (sample_impls returns_null returns_null)
        (sample_runner True) sample_event sample_state) =
   Some (Inr \<lparr>lastStep = ''createEventStep'', args = [sample_event], error = None\<rparr>,
         [StatsdIncrement ''kafka_queue.single_event.processed_and_ingested'' []])"
proof
  let ?err = "DependencyUnavailableError ''clickhouse unavailable''"
  let ?impls = "sample_impls (rejects_with ?err) returns_null :: nat step_impls"
  let ?runner = "sample_runner True"
  obtain s0 where e: "entry LiveEvent ?runner sample_event sample_state =
      Seeded ''emitToBufferStep'' [sample_event] s0 []"
    by simp
  obtain s1 where a1: "await_runStep ?impls ?runner ''emitToBufferStep'' [sample_event] s0 =
      Some (Fulfilled (Some (''pluginsProcessEventStep'', [sample_event])), s1)"
    by (simp add: sample_defs)
  obtain s2 where a2: "await_runStep ?impls ?runner ''pluginsProcessEventStep'' [sample_event]
      (step_done ''emitToBufferStep'' s1) =
      Some (Fulfilled (Some (''processPersonsStep'', [sample_event])), s2)"
    by (simp add: sample_defs)
  obtain s3 where a3: "await_runStep ?impls ?runner ''processPersonsStep'' [sample_event]
      (step_done ''pluginsProcessEventStep'' s2) =
      Some (Fulfilled (Some (''prepareEventStep'', [sample_event])), s3)"
    by (simp add: sample_defs)
  obtain s4 where a4: "await_runStep ?impls ?runner ''prepareEventStep'' [sample_event]
      (step_done ''processPersonsStep'' s3) =
      Some (Fulfilled (Some (''createEventStep'', [sample_event])), s4)"
    by (simp add: sample_defs)
  obtain s5 where a5: "await_runStep ?impls ?runner ''createEventStep'' [sample_event]
      (step_done ''prepareEventStep'' s4) = Some (Rejected ?err, s5)"
    by (simp add: sample_defs)
  have r: "reaches ?impls ?runner (''emitToBufferStep'', [sample_event], s0)
      (''createEventStep'', [sample_event], step_done ''prepareEventStep'' s4)"
    by (rule reaches_next[OF a1], rule reaches_next[OF a2], rule reaches_next[OF a3],
        rule reaches_next[OF a4], rule reaches_here)
  from closing_counter_iff_result[of LiveEvent ?runner sample_event sample_state ?impls,
      THEN conjunct2, THEN conjunct2, THEN conjunct2, THEN conjunct2, THEN conjunct2,
      rule_format, OF conjI[OF e conjI[OF r a5]]]
  obtain s' where "runVariant LiveEvent ?impls ?runner sample_event sample_state =
      Some (Inl ?err, s')"
    and "closing_emitted (effects s') = closing_emitted (effects sample_state)"
    by blast
  then show "map_option (\<lambda>(out, s'). (out, closing_emitted (effects s')))
     (runVariant LiveEvent ?impls ?runner sample_event sample_state) = Some (Inl ?err, [])"
    by (simp add: sample_state_def closing_emitted_def)
next
  let ?impls = "sample_impls returns_null returns_null :: nat step_impls"
  let ?runner = "sample_runner True"
  obtain s0 where e: "entry LiveEvent ?runner sample_event sample_state =
      Seeded ''emitToBufferStep'' [sample_event] s0 []"
    by simp
  obtain s1 where a1: "await_runStep ?impls ?runner ''emitToBufferStep'' [sample_event] s0 =
      Some (Fulfilled (Some (''pluginsProcessEventStep'', [sample_event])), s1)"
    by (simp add: sample_defs)
  obtain s2 where a2: "await_runStep ?impls ?runner ''pluginsProcessEventStep'' [sample_event]
      (step_done ''emitToBufferStep'' s1) =
      Some (Fulfilled (Some (''processPersonsStep'', [sample_event])), s2)"
    by (simp add: sample_defs)
  obtain s3 where a3: "await_runStep ?impls ?runner ''processPersonsStep'' [sample_event]
      (step_done ''pluginsProcessEventStep'' s2) =
      Some (Fulfilled (Some (''prepareEventStep'', [sample_event])), s3)"
    by (simp add: sample_defs)
  obtain s4 where a4: "await_runStep ?impls ?runner ''prepareEventStep'' [sample_event]
      (step_done ''processPersonsStep'' s3) =
      Some (Fulfilled (Some (''createEventStep'', [sample_event])), s4)"
    by (simp add: sample_defs)
  obtain s5 where a5: "await_runStep ?impls ?runner ''createEventStep'' [sample_event]
      (step_done ''prepareEventStep'' s4) = Some (Fulfilled None, s5)"
    by (simp add: sample_defs)
  have r: "reaches ?impls ?runner (''emitToBufferStep'', [sample_event], s0)
      (''createEventStep'', [sample_event], step_done ''prepareEventStep'' s4)"
    by (rule reaches_next[OF a1], rule reaches_next[OF a2], rule reaches_next[OF a3],
        rule reaches_next[OF a4], rule reaches_here)
  have "runPipeline ?impls ?runner ''emitToBufferStep'' [sample_event] s0 =
      runPipeline ?impls ?runner ''createEventStep'' [sample_event]
        (step_done ''prepareEventStep'' s4)"
    using reaches_runPipeline[OF r] by simp
  also have "\<dots> = Some (finish ?impls ?runner ''createEventStep'' [sample_event] (Fulfilled None) s5)"
    using a5 by (rule runPipeline_stops) simp
  finally obtain s6 where rp: "runPipeline ?impls ?runner ''emitToBufferStep'' [sample_event] s0 =
      Some (Inr \<lparr>lastStep = ''createEventStep'', args = [sample_event], error = None\<rparr>, s6)"
    by (simp add: finish_def Let_def serialize_def sample_event_def)
  from closing_counter_iff_result[of LiveEvent ?runner sample_event sample_state ?impls,
      THEN conjunct1, rule_format, OF conjI[OF e rp]]
  have "runVariant LiveEvent ?impls ?runner sample_event sample_state =
      Some (Inr \<lparr>lastStep = ''createEventStep'', args = [sample_event], error = None\<rparr>,
            statsd_increment (closing_name LiveEvent) [] s6)"
    and "closing_emitted (effects (statsd_increment (closing_name LiveEvent) [] s6)) =
      closing_emitted (effects sample_state) @ [StatsdIncrement (closing_name LiveEvent) []]"
    by blast+
  then show "map_option (\<lambda>(out, s'). (out, closing_emitted (effects s')))
     (runVariant LiveEvent ?impls ?runner sample_event sample_state) =
     Some (Inr \<lparr>lastStep = ''createEventStep'', args = [sample_event], error = None\<rparr>,
         [StatsdIncrement ''kafka_queue.single_event.processed_and_ingested'' []])"
    by (simp add: sample_state_def closing_emitted_def)
qed

subsection \<open>Historical replay against the live export\<close>




end
